theory Spec2Isabelle
  imports Main
begin

section \<open>The JavaScript values the handlers compute with\<close>

text \<open>
  The capacity recommenders of \<^verbatim>\<open>core/static/js/timetable.js\<close> (rooms) and of the
  bus request page are \<^verbatim>\<open>input\<close> listeners: they read the text of an input field and
  the attributes of the \<^verbatim>\<open>option\<close> elements of a \<^verbatim>\<open>select\<close>, and write the options,
  the selection, a banner and (bus page) the submit button.

  Numbers are IEEE doubles. The listeners only ever hold \<^verbatim>\<open>NaN\<close>, the two infinities and
  doubles whose value is an integer (the results of \<^verbatim>\<open>parseInt\<close> and their differences):
  \<open>Num i\<close> is the double of value \<open>i\<close>. The two zeros are one value here: they compare
  equal, are both falsy and print alike. Strings are byte strings in UTF-8.
\<close>

datatype jsnum = NaN | Num int | Infinity | NegInfinity

subsection \<open>Rounding an integer to a double\<close>

text \<open>The number of binary digits of a non-negative integer.\<close>

function bitlen :: "int \<Rightarrow> nat" where
  "bitlen a = (if a \<le> 0 then 0 else Suc (bitlen (a div 2)))"
  by pat_completeness auto
termination
  by (relation "measure nat") auto

declare bitlen.simps [simp del]

text \<open>
  The nearest integer with at most 53 significant binary digits to a non-negative integer,
  ties to the even significand: below \<open>2\<^sup>5\<^sup>3\<close> every integer is a double.
\<close>

definition round_mag :: "int \<Rightarrow> int" where
  "round_mag a =
     (if a < 2 ^ 53 then a
      else
        let e = bitlen a - 53;
            q = a div 2 ^ e;
            r = a mod 2 ^ e;
            h = 2 ^ (e - 1)
        in (if h < r \<or> (r = h \<and> odd q) then q + 1 else q) * 2 ^ e)"

text \<open>
  From \<open>2\<^sup>1\<^sup>0\<^sup>2\<^sup>4 - 2\<^sup>9\<^sup>7\<^sup>0\<close> on (the largest double plus half a unit in its last place)
  the result is infinite.
\<close>

definition overflow :: int where
  "overflow = 2 ^ 1024 - 2 ^ 970"

definition to_double :: "int \<Rightarrow> jsnum" where
  "to_double m =
     (if overflow \<le> \<bar>m\<bar> then (if m < 0 then NegInfinity else Infinity)
      else Num (sgn m * round_mag \<bar>m\<bar>))"

text \<open>\<^verbatim>\<open>a < b\<close> on numbers: false as soon as one side is \<^verbatim>\<open>NaN\<close>.\<close>

fun js_lt :: "jsnum \<Rightarrow> jsnum \<Rightarrow> bool" where
  "js_lt NaN _ = False"
| "js_lt _ NaN = False"
| "js_lt (Num a) (Num b) = (a < b)"
| "js_lt (Num a) Infinity = True"
| "js_lt (Num a) NegInfinity = False"
| "js_lt Infinity _ = False"
| "js_lt NegInfinity (Num b) = True"
| "js_lt NegInfinity Infinity = True"
| "js_lt NegInfinity NegInfinity = False"

text \<open>\<^verbatim>\<open>a > b\<close> is \<^verbatim>\<open>b < a\<close>.\<close>

definition js_gt :: "jsnum \<Rightarrow> jsnum \<Rightarrow> bool" where
  "js_gt a b = js_lt b a"

text \<open>\<^verbatim>\<open>a - b\<close> on numbers: the exact difference, rounded.\<close>

fun js_sub :: "jsnum \<Rightarrow> jsnum \<Rightarrow> jsnum" where
  "js_sub NaN _ = NaN"
| "js_sub _ NaN = NaN"
| "js_sub (Num a) (Num b) = to_double (a - b)"
| "js_sub (Num a) Infinity = NegInfinity"
| "js_sub (Num a) NegInfinity = Infinity"
| "js_sub Infinity Infinity = NaN"
| "js_sub Infinity _ = Infinity"
| "js_sub NegInfinity NegInfinity = NaN"
| "js_sub NegInfinity _ = NegInfinity"

text \<open>Truthiness of a number, and \<^verbatim>\<open>a || b\<close> on numbers.\<close>

fun js_truthy :: "jsnum \<Rightarrow> bool" where
  "js_truthy NaN = False"
| "js_truthy (Num n) = (n \<noteq> 0)"
| "js_truthy _ = True"

definition js_or :: "jsnum \<Rightarrow> jsnum \<Rightarrow> jsnum" where
  "js_or a b = (if js_truthy a then a else b)"

subsection \<open>Numbers to strings\<close>

text \<open>The decimal digits of a non-negative integer.\<close>

function show_digits :: "int \<Rightarrow> string" where
  "show_digits n =
     (if n < 10 then [''0123456789'' ! nat n]
      else show_digits (n div 10) @ [''0123456789'' ! nat (n mod 10)])"
  by pat_completeness auto
termination
  by (relation "measure nat") auto

declare show_digits.simps [simp del]

text \<open>
  \<^verbatim>\<open>Number::toString\<close> prints the shortest decimal \<open>s \<times> 10\<^bsup>n-k\<^esup>\<close> (\<open>s\<close> of \<open>k\<close> digits)
  that rounds to the number, the closest one if there are several of that length, the
  even \<open>s\<close> on a tie. The candidates of \<open>k\<close> digits for the double \<open>x\<close>:
\<close>

definition shortest_candidates :: "int \<Rightarrow> nat \<Rightarrow> (int \<times> nat) list" where
  "shortest_candidates x k =
     [(s, n).
        n \<leftarrow> [length (show_digits x), Suc (length (show_digits x))], k \<le> n,
        s \<leftarrow> [x div 10 ^ (n - k), x div 10 ^ (n - k) + 1],
        10 ^ (k - 1) \<le> s, s < 10 ^ k,
        s * 10 ^ (n - k) < overflow, round_mag (s * 10 ^ (n - k)) = x]"

definition closer :: "int \<Rightarrow> nat \<Rightarrow> int \<times> nat \<Rightarrow> int \<times> nat \<Rightarrow> int \<times> nat" where
  "closer x k c1 c2 =
     (let d1 = \<bar>fst c1 * 10 ^ (snd c1 - k) - x\<bar>;
          d2 = \<bar>fst c2 * 10 ^ (snd c2 - k) - x\<bar>
      in if d2 < d1 \<or> (d2 = d1 \<and> even (fst c2) \<and> odd (fst c1)) then c2 else c1)"

text \<open>The shortest decimal as \<open>(s, k, n)\<close>, trying the lengths in turn.\<close>

fun shortest :: "int \<Rightarrow> nat list \<Rightarrow> int \<times> nat \<times> nat" where
  "shortest x [] = (x, length (show_digits x), length (show_digits x))"
| "shortest x (k # ks) =
     (case shortest_candidates x k of
        [] \<Rightarrow> shortest x ks
      | c # cs \<Rightarrow> (let (s, n) = foldl (closer x k) c cs in (s, k, n)))"

text \<open>
  Below \<open>2\<^sup>5\<^sup>3\<close> the shortest decimal is the integer itself. Up to 21 digits the
  number is printed in full, with zeros after the digits of \<open>s\<close>; beyond, in exponent
  notation.
\<close>

definition magnitude_string :: "int \<Rightarrow> string" where
  "magnitude_string x =
     (if x < 2 ^ 53 then show_digits x
      else
        let (s, k, n) = shortest x [1..<18]
        in if n \<le> 21 then show_digits s @ replicate (n - k) CHR ''0''
           else (if k = 1 then show_digits s
                 else hd (show_digits s) # CHR ''.'' # tl (show_digits s)) @
                ''e+'' @ show_digits (int n - 1))"

text \<open>What a template literal \<^verbatim>\<open>${x}\<close> prints for a number.\<close>

fun js_num_string :: "jsnum \<Rightarrow> string" where
  "js_num_string NaN = ''NaN''"
| "js_num_string (Num i) = (if i < 0 then ''-'' @ magnitude_string (- i) else magnitude_string i)"
| "js_num_string Infinity = ''Infinity''"
| "js_num_string NegInfinity = ''-Infinity''"

text \<open>
  \<^verbatim>\<open>getAttribute\<close> returns a string or \<^verbatim>\<open>null\<close>; both \<^verbatim>\<open>parseInt\<close> and a template literal
  turn \<^verbatim>\<open>null\<close> into the string \<^verbatim>\<open>"null"\<close>.
\<close>

fun js_string :: "string option \<Rightarrow> string" where
  "js_string None = ''null''"
| "js_string (Some s) = s"

subsection \<open>\<^verbatim>\<open>parseInt\<close> with no radix\<close>

text \<open>
  Leading white space is skipped: the one-byte characters TAB, LF, VT, FF, CR and SP, and
  the UTF-8 forms of U+00A0, U+1680, U+2000 to U+200A, U+2028, U+2029, U+202F, U+205F,
  U+3000 and U+FEFF.
\<close>

definition ws1 :: "char \<Rightarrow> bool" where
  "ws1 a = (a \<in> {CHR 0x09, CHR 0x0A, CHR 0x0B, CHR 0x0C, CHR 0x0D, CHR 0x20})"

definition ws2 :: "char \<Rightarrow> char \<Rightarrow> bool" where
  "ws2 a b = (a = CHR 0xC2 \<and> b = CHR 0xA0)"

definition ws3 :: "char \<Rightarrow> char \<Rightarrow> char \<Rightarrow> bool" where
  "ws3 a b c =
     ((a = CHR 0xE1 \<and> b = CHR 0x9A \<and> c = CHR 0x80) \<or>
      (a = CHR 0xE2 \<and> b = CHR 0x80 \<and>
         ((128::nat) \<le> of_char c \<and> (of_char c :: nat) \<le> 138 \<or> c \<in> {CHR 0xA8, CHR 0xA9, CHR 0xAF})) \<or>
      (a = CHR 0xE2 \<and> b = CHR 0x81 \<and> c = CHR 0x9F) \<or>
      (a = CHR 0xE3 \<and> b = CHR 0x80 \<and> c = CHR 0x80) \<or>
      (a = CHR 0xEF \<and> b = CHR 0xBB \<and> c = CHR 0xBF))"

fun trim_start :: "string \<Rightarrow> string" where
  "trim_start (a # b # c # s) =
     (if ws1 a then trim_start (b # c # s)
      else if ws2 a b then trim_start (c # s)
      else if ws3 a b c then trim_start s
      else a # b # c # s)"
| "trim_start [a, b] =
     (if ws1 a then trim_start [b] else if ws2 a b then [] else [a, b])"
| "trim_start [a] = (if ws1 a then [] else [a])"
| "trim_start [] = []"

text \<open>The value of a character as a digit: \<^verbatim>\<open>0-9\<close>, then \<^verbatim>\<open>a-z\<close> and \<^verbatim>\<open>A-Z\<close> from ten on.\<close>

definition digit_of :: "char \<Rightarrow> nat option" where
  "digit_of c =
     (let n = (of_char c :: nat) in
      if 48 \<le> n \<and> n \<le> 57 then Some (n - 48)
      else if 97 \<le> n \<and> n \<le> 122 then Some (n - 87)
      else if 65 \<le> n \<and> n \<le> 90 then Some (n - 55)
      else None)"

definition radix_digit :: "nat \<Rightarrow> char \<Rightarrow> bool" where
  "radix_digit R c = (case digit_of c of None \<Rightarrow> False | Some d \<Rightarrow> d < R)"

definition digits_value :: "nat \<Rightarrow> string \<Rightarrow> int" where
  "digits_value R Z =
     foldl (\<lambda>acc c. case digit_of c of None \<Rightarrow> acc | Some d \<Rightarrow> acc * int R + int d) 0 Z"

text \<open>
  \<^verbatim>\<open>parseInt(string)\<close>: skip white space, take a sign, take a \<^verbatim>\<open>0x\<close> prefix (then the
  radix is 16, else 10), read the longest run of digits; no digit gives \<^verbatim>\<open>NaN\<close>, else
  the value of the digits is rounded to a double.
\<close>

definition parseInt :: "string \<Rightarrow> jsnum" where
  "parseInt inputString =
     (let S = trim_start inputString;
          sign = (if S \<noteq> [] \<and> hd S = CHR ''-'' then - 1 else (1::int));
          S = (if S \<noteq> [] \<and> (hd S = CHR ''+'' \<or> hd S = CHR ''-'') then tl S else S);
          hex = (take 2 S = ''0x'' \<or> take 2 S = ''0X'');
          R = (if hex then 16 else 10);
          S = (if hex then drop 2 S else S);
          Z = takeWhile (radix_digit R) S
      in if Z = [] then NaN else to_double (sign * digits_value R Z))"

section \<open>The page\<close>

text \<open>
  An \<^verbatim>\<open>option\<close> element: its \<^verbatim>\<open>value\<close>, the attributes \<^verbatim>\<open>data-capacity\<close> and
  \<^verbatim>\<open>data-name\<close> (absent or a string), and the two properties the listeners write.
  Every option carries a \<^verbatim>\<open>value\<close> attribute (the placeholder has the empty one), so
  that \<^verbatim>\<open>opt.value\<close> does not depend on the text.
\<close>

record option_el =
  opt_value :: string
  data_capacity :: "string option"
  data_name :: "string option"
  disabled :: bool
  textContent :: string

text \<open>
  The banner: \<^verbatim>\<open>style.display\<close>, \<^verbatim>\<open>className\<close> and \<^verbatim>\<open>innerHTML\<close>. The class
  attribute is the list of its tokens, in order and without duplicates, which is what
  \<^verbatim>\<open>classList\<close> reads and writes.
\<close>

record text_el =
  display :: string
  className :: "string list"
  innerHTML :: string

record button_el =
  btn_disabled :: bool
  btn_textContent :: string
  btn_classList :: "string list"

definition classList_add :: "string \<Rightarrow> string list \<Rightarrow> string list" where
  "classList_add tok cl = (if tok \<in> set cl then cl else cl @ [tok])"

definition classList_remove :: "string \<Rightarrow> string list \<Rightarrow> string list" where
  "classList_remove tok cl = filter (\<lambda>t. t \<noteq> tok) cl"

text \<open>
  \<^verbatim>\<open>options.forEach(callback)\<close>: the callback sees each element in order with its index,
  may write the element and the variables it closes over.
\<close>

fun forEach :: "(nat \<Rightarrow> 'a \<Rightarrow> 's \<Rightarrow> 'a \<times> 's) \<Rightarrow> nat \<Rightarrow> 'a list \<Rightarrow> 's \<Rightarrow> 'a list \<times> 's" where
  "forEach f i [] s = ([], s)"
| "forEach f i (x # xs) s =
     (let (x', s') = f i x s;
          (xs', s'') = forEach f (Suc i) xs s'
      in (x' # xs', s''))"

text \<open>The two labels of an option; the cross mark U+274C is three bytes.\<close>

definition too_small_label :: "string \<Rightarrow> jsnum \<Rightarrow> string" where
  "too_small_label name capacity =
     [CHR 0xE2, CHR 0x9D, CHR 0x8C] @ '' '' @ name @ '' (Cap: '' @ js_num_string capacity @ '') - Too Small''"

definition fits_label :: "string \<Rightarrow> jsnum \<Rightarrow> string" where
  "fits_label name capacity = name @ '' (Capacity: '' @ js_num_string capacity @ '')''"

section \<open>The room recommender (\<^verbatim>\<open>timetable.js\<close>)\<close>

text \<open>
  The variables of the listener that the callback writes. \<^verbatim>\<open>bestFitOption\<close> refers to
  an element of \<^verbatim>\<open>options\<close>: it is the index of that element, or \<^verbatim>\<open>null\<close>.
\<close>

record room_vars =
  bestFitOption :: "nat option"
  smallestDifference :: jsnum

definition room_callback :: "jsnum \<Rightarrow> nat \<Rightarrow> option_el \<Rightarrow> room_vars \<Rightarrow> option_el \<times> room_vars" where
  "room_callback requiredSeats i opt vars =
     (if opt_value opt = '''' then (opt, vars)
      else
        let capacity = parseInt (js_string (data_capacity opt));
            name = js_string (data_name opt)
        in if js_lt capacity requiredSeats then
             (opt\<lparr>disabled := True, textContent := too_small_label name capacity\<rparr>, vars)
           else
             let opt' = opt\<lparr>disabled := False, textContent := fits_label name capacity\<rparr>;
                 diff = js_sub capacity requiredSeats
             in if js_lt diff (smallestDifference vars) then
                  (opt', vars\<lparr>smallestDifference := diff, bestFitOption := Some i\<rparr>)
                else (opt', vars))"

definition room_scan :: "jsnum \<Rightarrow> option_el list \<Rightarrow> option_el list \<times> room_vars" where
  "room_scan requiredSeats opts =
     forEach (room_callback requiredSeats) 0 opts
       \<lparr>bestFitOption = None, smallestDifference = Infinity\<rparr>"

definition best_fit_html :: "string \<Rightarrow> string" where
  \<open>best_fit_html name =
     ''<i class="bi bi-stars me-1"></i> Auto-selected <strong>'' @ name @ ''</strong> as the best fit!''\<close>

definition no_room_html :: "jsnum \<Rightarrow> string" where
  \<open>no_room_html requiredSeats =
     ''<i class="bi bi-exclamation-circle me-1"></i> No single room can hold '' @
     js_num_string requiredSeats @ '' students.''\<close>

record room_page =
  options :: "option_el list"
  spaceSelect_value :: string
  recommendText :: text_el

text \<open>The body of the listener once \<^verbatim>\<open>requiredSeats\<close> is known.\<close>

definition room_recommend :: "jsnum \<Rightarrow> room_page \<Rightarrow> room_page" where
  "room_recommend requiredSeats page =
     (let hidden = (recommendText page)\<lparr>display := ''none''\<rparr>;
          (opts, vars) = room_scan requiredSeats (options page)
      in case bestFitOption vars of
           Some i \<Rightarrow>
             page\<lparr>options := opts,
                  spaceSelect_value := opt_value (opts ! i),
                  recommendText := hidden\<lparr>display := ''block'',
                    innerHTML := best_fit_html (js_string (data_name (opts ! i)))\<rparr>\<rparr>
         | None \<Rightarrow>
             if js_gt requiredSeats (Num 0) then
               page\<lparr>options := opts,
                    spaceSelect_value := '''',
                    recommendText := hidden\<lparr>display := ''block'',
                      className := [''form-text'', ''text-danger'', ''fw-bold'', ''mt-2''],
                      innerHTML := no_room_html requiredSeats\<rparr>\<rparr>
             else page\<lparr>options := opts, recommendText := hidden\<rparr>)"

text \<open>\<^verbatim>\<open>const requiredSeats = parseInt(this.value) || 0\<close>, then the body.\<close>

definition countInput_input :: "string \<Rightarrow> room_page \<Rightarrow> room_page" where
  "countInput_input this_value page =
     room_recommend (js_or (parseInt this_value) (Num 0)) page"

text \<open>
  The outcome of one evaluation, read off the branch the listener takes: a best fit (the
  index of the chosen option and its surplus), no fit (with the required count), or
  neither.
\<close>

datatype RecommendationResult = BestFit nat jsnum | NoFit jsnum | Empty

definition evaluate :: "jsnum \<Rightarrow> option_el list \<Rightarrow> RecommendationResult" where
  "evaluate requiredSeats opts =
     (let vars = snd (room_scan requiredSeats opts)
      in case bestFitOption vars of
           Some i \<Rightarrow> BestFit i (smallestDifference vars)
         | None \<Rightarrow> if js_gt requiredSeats (Num 0) then NoFit requiredSeats else Empty)"

section \<open>The bus recommender with its submission gate\<close>

record bus_vars =
  validBusFound :: bool
  bestFit :: "nat option"
  minWaste :: jsnum

definition bus_callback :: "jsnum \<Rightarrow> nat \<Rightarrow> option_el \<Rightarrow> bus_vars \<Rightarrow> option_el \<times> bus_vars" where
  "bus_callback count i opt vars =
     (if opt_value opt = '''' then (opt, vars)
      else
        let cap = parseInt (js_string (data_capacity opt))
        in if js_gt count cap then
             (opt\<lparr>disabled := True,
                  textContent := too_small_label (js_string (data_name opt)) cap\<rparr>, vars)
           else
             let opt' = opt\<lparr>disabled := False,
                            textContent := fits_label (js_string (data_name opt)) cap\<rparr>;
                 vars' = vars\<lparr>validBusFound := True\<rparr>;
                 waste = js_sub cap count
             in if js_lt waste (minWaste vars') then
                  (opt', vars'\<lparr>minWaste := waste, bestFit := Some i\<rparr>)
                else (opt', vars'))"

definition bus_scan :: "jsnum \<Rightarrow> option_el list \<Rightarrow> option_el list \<times> bus_vars" where
  "bus_scan count opts =
     forEach (bus_callback count) 0 opts
       \<lparr>validBusFound = False, bestFit = None, minWaste = Infinity\<rparr>"

definition no_vehicle_html :: "jsnum \<Rightarrow> string" where
  \<open>no_vehicle_html count =
     ''<i class="bi bi-x-circle-fill"></i> No single vehicle can hold '' @ js_num_string count @
     '' people. Please contact Transport Officer directly.''\<close>

definition bus_fit_html :: "string \<Rightarrow> jsnum \<Rightarrow> string" where
  \<open>bus_fit_html name count =
     ''<i class="bi bi-stars"></i> Auto-selected <strong>'' @ name @ ''</strong> for '' @
     js_num_string count @ '' passengers.''\<close>

record bus_page =
  bus_options :: "option_el list"
  busSelect_value :: string
  suggestionText :: text_el
  submitBtn :: button_el

definition bus_recommend :: "jsnum \<Rightarrow> bus_page \<Rightarrow> bus_page" where
  "bus_recommend count page =
     (let reset = (suggestionText page)\<lparr>display := ''none'',
                     className := [''form-text'', ''fw-bold'', ''mt-2'']\<rparr>;
          (opts, vars) = bus_scan count (bus_options page)
      in if js_gt count (Num 0) \<and> \<not> validBusFound vars then
           page\<lparr>bus_options := opts,
                busSelect_value := '''',
                submitBtn := (submitBtn page)\<lparr>btn_disabled := True,
                  btn_textContent := ''Cannot Book: Too many passengers'',
                  btn_classList := classList_remove ''btn-google''
                    (classList_add ''btn-secondary'' (btn_classList (submitBtn page)))\<rparr>,
                suggestionText := reset\<lparr>display := ''block'',
                  className := classList_add ''text-danger'' (className reset),
                  innerHTML := no_vehicle_html count\<rparr>\<rparr>
         else
           case bestFit vars of
             Some i \<Rightarrow>
               page\<lparr>bus_options := opts,
                    busSelect_value := opt_value (opts ! i),
                    submitBtn := (submitBtn page)\<lparr>btn_disabled := False,
                      btn_textContent := ''Submit Request'',
                      btn_classList := classList_add ''btn-google''
                        (classList_remove ''btn-secondary'' (btn_classList (submitBtn page)))\<rparr>,
                    suggestionText := reset\<lparr>display := ''block'',
                      className := classList_add ''text-success'' (className reset),
                      innerHTML := bus_fit_html (js_string (data_name (opts ! i))) count\<rparr>\<rparr>
           | None \<Rightarrow> page\<lparr>bus_options := opts, suggestionText := reset\<rparr>)"

definition headcountInput_input :: "string \<Rightarrow> bus_page \<Rightarrow> bus_page" where
  "headcountInput_input this_value page =
     bus_recommend (js_or (parseInt this_value) (Num 0)) page"

definition evaluate_bus :: "jsnum \<Rightarrow> option_el list \<Rightarrow> RecommendationResult" where
  "evaluate_bus count opts =
     (let vars = snd (bus_scan count opts)
      in if js_gt count (Num 0) \<and> \<not> validBusFound vars then NoFit count
         else case bestFit vars of
                Some i \<Rightarrow> BestFit i (minWaste vars)
              | None \<Rightarrow> Empty)"

section \<open>Vocabulary of the statements\<close>

text \<open>The capacity the callbacks read from an option.\<close>

definition capacity_of :: "option_el \<Rightarrow> jsnum" where
  "capacity_of opt = parseInt (js_string (data_capacity opt))"

text \<open>
  A candidate is an option the callbacks do not skip: its value is not empty. The
  callbacks take it as fitting the required count \<open>r\<close> when they reach their else branch,
  and then compute its surplus.
\<close>

definition fits :: "jsnum \<Rightarrow> option_el \<Rightarrow> bool" where
  "fits r opt = (opt_value opt \<noteq> '''' \<and> \<not> js_lt (capacity_of opt) r)"

definition surplus :: "jsnum \<Rightarrow> option_el \<Rightarrow> jsnum" where
  "surplus r opt = js_sub (capacity_of opt) r"

text \<open>
  A candidate is eligible for the integer requirement \<open>n\<close>, with capacity \<open>c\<close>, when its
  capacity is the integer \<open>c\<close> and \<open>n \<le> c\<close>.
\<close>

definition eligible :: "int \<Rightarrow> option_el \<Rightarrow> int \<Rightarrow> bool" where
  "eligible n opt c = (opt_value opt \<noteq> '''' \<and> capacity_of opt = Num c \<and> n \<le> c)"

text \<open>The data model's candidates have a capacity that is a non-negative integer.\<close>

definition nonneg_capacity :: "option_el \<Rightarrow> bool" where
  "nonneg_capacity opt = (case capacity_of opt of Num c \<Rightarrow> 0 \<le> c | _ \<Rightarrow> False)"

text \<open>
  Up to \<open>2\<^sup>5\<^sup>2\<close> the differences of such capacities with required counts of that size
  are exact.
\<close>

definition safe_capacity :: "option_el \<Rightarrow> bool" where
  "safe_capacity opt = (case capacity_of opt of Num c \<Rightarrow> 0 \<le> c \<and> c \<le> 2 ^ 52 | _ \<Rightarrow> False)"

text \<open>What the server rendered of a candidate: identifier, capacity and name.\<close>

definition candidate_of :: "option_el \<Rightarrow> string \<times> string option \<times> string option" where
  "candidate_of opt = (opt_value opt, data_capacity opt, data_name opt)"

text \<open>A sequence of \<^verbatim>\<open>input\<close> events on the room page, oldest first.\<close>

fun countInput_events :: "string list \<Rightarrow> room_page \<Rightarrow> room_page" where
  "countInput_events [] page = page"
| "countInput_events (v # vs) page = countInput_events vs (countInput_input v page)"

subsection \<open>Example pages\<close>

definition rendered_option :: "string \<Rightarrow> string \<Rightarrow> string \<Rightarrow> option_el" where
  "rendered_option v capacity name =
     \<lparr>opt_value = v, data_capacity = Some capacity, data_name = Some name,
      disabled = False, textContent = name\<rparr>"

definition placeholder_option :: option_el where
  "placeholder_option =
     \<lparr>opt_value = '''', data_capacity = None, data_name = None,
      disabled = False, textContent = ''-- Select --''\<rparr>"

definition hidden_banner :: text_el where
  "hidden_banner = \<lparr>display = ''none'', className = [''form-text'', ''text-success''], innerHTML = ''''\<rparr>"

definition room_page_of :: "option_el list \<Rightarrow> room_page" where
  "room_page_of opts =
     \<lparr>options = opts, spaceSelect_value = '''', recommendText = hidden_banner\<rparr>"

definition bus_page_of :: "option_el list \<Rightarrow> bus_page" where
  "bus_page_of opts =
     \<lparr>bus_options = opts, busSelect_value = '''', suggestionText = hidden_banner,
      submitBtn = \<lparr>btn_disabled = False, btn_textContent = ''Submit Request'',
                   btn_classList = [''btn'', ''btn-google'']\<rparr>\<rparr>"

text \<open>Three rooms A (30), B (50), C (45) after the placeholder.\<close>

definition three_rooms :: "option_el list" where
  "three_rooms =
     [placeholder_option, rendered_option ''1'' ''30'' ''A'',
      rendered_option ''2'' ''50'' ''B'', rendered_option ''3'' ''45'' ''C'']"


text \<open>Two rooms whose capacity attributes are beyond the exactly representable integers.\<close>

definition large_rooms :: "option_el list" where
  "large_rooms =
     [rendered_option ''7'' ''1000000000000000000000'' ''Arena'',
      rendered_option ''8'' ''9007199254740995'' ''Dome'']"
section \<open>Properties of the numbers\<close>

lemma bitlen_pos: "0 < a \<Longrightarrow> bitlen a = Suc (bitlen (a div 2))"
  by (subst bitlen.simps) simp

lemma bitlen_bounds: "0 < a \<Longrightarrow> 2 ^ (bitlen a - 1) \<le> a \<and> a < 2 ^ bitlen a"
proof (induction a rule: bitlen.induct)
  case (1 a)
  show ?case
  proof (cases "a div 2 \<le> 0")
    case True
    with "1.prems" have a1: "a = 1" by simp
    have "bitlen 1 = 1" by (simp add: bitlen.simps [of 1] bitlen.simps [of 0])
    with a1 show ?thesis by simp
  next
    case False
    then have pos: "0 < a div 2" by simp
    from "1.IH" [OF _ pos] "1.prems"
    have ih: "2 ^ (bitlen (a div 2) - 1) \<le> a div 2" "a div 2 < 2 ^ bitlen (a div 2)" by simp_all
    have b: "bitlen a = Suc (bitlen (a div 2))" using "1.prems" by (rule bitlen_pos)
    have bp: "0 < bitlen (a div 2)" using bitlen_pos [OF pos] by simp
    then obtain m where m: "bitlen (a div 2) = Suc m" by (cases "bitlen (a div 2)") simp_all
    from ih m have "2 * 2 ^ m \<le> 2 * (a div 2)" "2 * (a div 2) + 1 < 2 * 2 ^ Suc m" by simp_all
    then show ?thesis using b m by simp linarith
  qed
qed

lemma round_mag_small: "a < 2 ^ 53 \<Longrightarrow> round_mag a = a"
  by (simp add: round_mag_def)

lemma overflow_big: "2 ^ 53 < overflow"
  by (simp add: overflow_def)

lemma round_mag_2_53: "round_mag (2 ^ 53) = 2 ^ 53"
  by code_simp

lemma to_double_exact: "\<bar>m\<bar> \<le> 2 ^ 53 \<Longrightarrow> to_double m = Num m"
proof -
  assume a: "\<bar>m\<bar> \<le> 2 ^ 53"
  then have "\<bar>m\<bar> < overflow" using overflow_big by linarith
  moreover have "round_mag \<bar>m\<bar> = \<bar>m\<bar>"
  proof (cases "\<bar>m\<bar> = 2 ^ 53")
    case True
    then show ?thesis using round_mag_2_53 by simp
  next
    case False
    with a have "\<bar>m\<bar> < 2 ^ 53" by linarith
    then show ?thesis by (rule round_mag_small)
  qed
  moreover have "sgn m * \<bar>m\<bar> = m" by (simp add: mult_sgn_abs)
  ultimately show ?thesis by (simp add: to_double_def)
qed

lemma to_double_not_NaN [simp]: "to_double m \<noteq> NaN"
  by (simp add: to_double_def)


lemma round_mag_bound:
  assumes "0 \<le> a" and "a < overflow"
  shows "round_mag a < overflow"
proof (cases "a < 2 ^ 53")
  case True
  with assms show ?thesis by (simp add: round_mag_small)
next
  case False
  then have big: "2 ^ 53 \<le> a" by simp
  then have pos: "0 < a" by (rule less_le_trans [rotated]) simp
  define L where "L = bitlen a"
  define e where "e = L - 53"
  define q where "q = a div 2 ^ e"
  define r where "r = a mod 2 ^ e"
  from bitlen_bounds [OF pos] have lo: "2 ^ (L - 1) \<le> a" and hi: "a < 2 ^ L"
    by (simp_all add: L_def)
  have "(2::int) ^ 53 < 2 ^ L" using big hi by linarith
  then have L54: "53 < L" by (rule power_less_imp_less_exp [rotated]) simp
  have ov: "overflow < 2 ^ 1024" by (simp add: overflow_def)
  have "(2::int) ^ (L - 1) < 2 ^ 1024" using lo assms(2) ov by linarith
  then have "L - 1 < 1024" by (rule power_less_imp_less_exp [rotated]) simp
  with L54 have L1024: "L \<le> 1024" by simp
  have Le: "L = 53 + e" using L54 by (simp add: e_def)
  have e1: "1 \<le> e" and e971: "e \<le> 971" using L54 L1024 by (simp_all add: e_def)
  have a_eq: "a = q * 2 ^ e + r" unfolding q_def r_def by (rule div_mult_mod_eq [symmetric])
  have r0: "0 \<le> r" and r_lt: "r < 2 ^ e" by (simp_all add: r_def)
  have q_lt: "q < 2 ^ 53"
  proof -
    have "a < 2 ^ 53 * 2 ^ e" using hi by (simp only: Le power_add)
    moreover have "q * 2 ^ e \<le> a" using a_eq r0 by linarith
    ultimately have "q * 2 ^ e < 2 ^ 53 * 2 ^ e" by linarith
    then show ?thesis by (rule mult_right_less_imp_less) simp
  qed
  have rm: "round_mag a = (if 2 ^ (e - 1) < r \<or> (r = 2 ^ (e - 1) \<and> odd q) then q + 1 else q) * 2 ^ e"
    using False by (simp add: round_mag_def Let_def L_def e_def q_def r_def)
  have q0: "0 \<le> q" using pos by (simp add: q_def pos_imp_zdiv_nonneg_iff)
  have le1: "round_mag a \<le> (q + 1) * 2 ^ e"
    unfolding rm by (simp add: mult_right_mono)
  show ?thesis
  proof (cases "e \<le> 970")
    case True
    then have "(2::int) ^ e \<le> 2 ^ 970" by (intro power_increasing) simp_all
    moreover have "q + 1 \<le> 2 ^ 53" using q_lt by simp
    ultimately have "(q + 1) * 2 ^ e \<le> 2 ^ 53 * 2 ^ 970"
      using q0 by (intro mult_mono) simp_all
    also have "\<dots> < overflow" by (simp add: overflow_def)
    finally show ?thesis using le1 by linarith
  next
    case False
    with e971 have e: "e = 971" by simp
    show ?thesis
    proof (cases "q + 1 < 2 ^ 53")
      case True
      then have "q + 1 \<le> 2 ^ 53 - 1" by simp
      then have "(q + 1) * 2 ^ 971 \<le> (2 ^ 53 - 1) * 2 ^ 971"
        by (intro mult_right_mono) simp_all
      also have "\<dots> < overflow" by (simp add: overflow_def)
      finally show ?thesis using le1 e by simp
    next
      case False
      with q_lt have q: "q = 2 ^ 53 - 1" by simp
      from assms(2) a_eq have "r < overflow - (2 ^ 53 - 1) * 2 ^ 971"
        by (simp add: q e)
      also have "\<dots> = 2 ^ 970" by (simp add: overflow_def)
      finally have "r < 2 ^ 970" .
      then have "round_mag a = q * 2 ^ 971" by (simp add: rm e)
      also have "\<dots> < overflow" by (simp add: q overflow_def)
      finally show ?thesis .
    qed
  qed
qed


lemma round_mag_nonneg: "0 \<le> a \<Longrightarrow> 0 \<le> round_mag a"
  by (auto simp add: round_mag_def Let_def pos_imp_zdiv_nonneg_iff)

text \<open>A finite double is below the overflow bound, and so is every parsed number.\<close>

lemma to_double_finite: "to_double m = Num c \<Longrightarrow> \<bar>c\<bar> < overflow"
proof -
  assume a: "to_double m = Num c"
  then have lt: "\<bar>m\<bar> < overflow" and c: "c = sgn m * round_mag \<bar>m\<bar>"
    by (auto simp add: to_double_def split: if_splits)
  have "0 \<le> round_mag \<bar>m\<bar>" by (rule round_mag_nonneg) simp
  moreover have "round_mag \<bar>m\<bar> < overflow" by (rule round_mag_bound [OF _ lt]) simp
  ultimately show ?thesis unfolding c by (simp add: abs_mult)
qed

lemma parseInt_finite: "parseInt s = Num c \<Longrightarrow> \<bar>c\<bar> < overflow"
  by (auto simp add: parseInt_def Let_def split: if_splits dest: to_double_finite)

lemma capacity_finite: "capacity_of opt = Num c \<Longrightarrow> \<bar>c\<bar> < overflow"
  unfolding capacity_of_def by (rule parseInt_finite)

lemma js_sub_Num_finite:
  "\<bar>a - b\<bar> < overflow \<Longrightarrow> \<exists>d. js_sub (Num a) (Num b) = Num d"
  by (simp add: to_double_def)

lemma js_sub_Num_exact: "\<bar>a - b\<bar> \<le> 2 ^ 53 \<Longrightarrow> js_sub (Num a) (Num b) = Num (a - b)"
  by (simp add: to_double_exact)

lemma js_sub_Num_not_NaN [simp]: "js_sub (Num a) (Num b) \<noteq> NaN"
  by simp

lemma bitlen_unique:
  assumes "2 ^ m \<le> x" and "x < 2 ^ Suc m"
  shows "bitlen x = Suc m"
proof -
  have pos: "0 < x" using assms(1) by (rule less_le_trans [rotated]) simp
  from bitlen_bounds [OF pos] have lo: "2 ^ (bitlen x - 1) \<le> x" and hi: "x < 2 ^ bitlen x"
    by simp_all
  have "(2::int) ^ m < 2 ^ bitlen x" using assms(1) hi by linarith
  then have a: "m < bitlen x" by (rule power_less_imp_less_exp [rotated]) simp
  have "(2::int) ^ (bitlen x - 1) < 2 ^ Suc m" using lo assms(2) by linarith
  then have b: "bitlen x - 1 < Suc m" by (rule power_less_imp_less_exp [rotated]) simp
  from a b show ?thesis by simp
qed

lemma round_mag_multiple:
  assumes "2 ^ 52 \<le> q" and "q < 2 ^ 53" and "1 \<le> e"
  shows "round_mag (q * 2 ^ e) = q * 2 ^ e"
proof -
  let ?y = "q * 2 ^ e"
  have lo: "2 ^ (52 + e) \<le> ?y"
    using assms(1) by (simp add: power_add mult_right_mono)
  have hi: "?y < 2 ^ Suc (52 + e)"
  proof -
    have "?y < 2 ^ 53 * 2 ^ e" using assms(2) by (intro mult_strict_right_mono) simp_all
    also have "\<dots> = 2 ^ Suc (52 + e)" by (simp add: power_add)
    finally show ?thesis .
  qed
  have bl: "bitlen ?y = Suc (52 + e)" by (rule bitlen_unique [OF lo hi])
  have "(2::int) ^ 53 \<le> 2 ^ (52 + e)" using assms(3) by (intro power_increasing) simp_all
  with lo have big: "\<not> ?y < 2 ^ 53" by linarith
  have e': "bitlen ?y - 53 = e" using bl by simp
  have h: "(0::int) < 2 ^ (e - 1)" by simp
  show ?thesis
    using big h by (simp add: round_mag_def Let_def e' del: power_Suc)
qed

lemma round_mag_idem:
  assumes "0 \<le> a"
  shows "round_mag (round_mag a) = round_mag a"
proof (cases "a < 2 ^ 53")
  case True
  then show ?thesis by (simp add: round_mag_small)
next
  case False
  then have big: "2 ^ 53 \<le> a" by simp
  then have pos: "0 < a" by (rule less_le_trans [rotated]) simp
  define L where "L = bitlen a"
  define e where "e = L - 53"
  define q where "q = a div 2 ^ e"
  define r where "r = a mod 2 ^ e"
  from bitlen_bounds [OF pos] have lo: "2 ^ (L - 1) \<le> a" and hi: "a < 2 ^ L"
    by (simp_all add: L_def)
  have "(2::int) ^ 53 < 2 ^ L" using big hi by linarith
  then have L54: "53 < L" by (rule power_less_imp_less_exp [rotated]) simp
  have Le: "L = 53 + e" and Le1: "L - 1 = 52 + e" and e1: "1 \<le> e"
    using L54 by (simp_all add: e_def)
  have a_eq: "a = q * 2 ^ e + r" unfolding q_def r_def by (rule div_mult_mod_eq [symmetric])
  have r0: "0 \<le> r" and r_lt: "r < 2 ^ e" by (simp_all add: r_def)
  have q_lt: "q < 2 ^ 53"
  proof -
    have "a < 2 ^ 53 * 2 ^ e" using hi by (simp only: Le power_add)
    moreover have "q * 2 ^ e \<le> a" using a_eq r0 by linarith
    ultimately have "q * 2 ^ e < 2 ^ 53 * 2 ^ e" by linarith
    then show ?thesis by (rule mult_right_less_imp_less) simp
  qed
  have q_ge: "2 ^ 52 \<le> q"
  proof -
    have "2 ^ 52 * 2 ^ e \<le> a" using lo by (simp only: Le1 power_add)
    moreover have "a < (q + 1) * 2 ^ e" using a_eq r_lt by (simp add: algebra_simps)
    ultimately have "2 ^ 52 * 2 ^ e < (q + 1) * 2 ^ e" by linarith
    then have "2 ^ 52 < q + 1" by (rule mult_right_less_imp_less) simp
    then show ?thesis by simp
  qed
  have rm: "round_mag a = (if 2 ^ (e - 1) < r \<or> (r = 2 ^ (e - 1) \<and> odd q) then q + 1 else q) * 2 ^ e"
    using False by (simp add: round_mag_def Let_def L_def e_def q_def r_def)
  show ?thesis
  proof (cases "2 ^ (e - 1) < r \<or> (r = 2 ^ (e - 1) \<and> odd q)")
    case False
    then have "round_mag a = q * 2 ^ e" by (simp add: rm)
    with round_mag_multiple [OF q_ge q_lt e1] show ?thesis by simp
  next
    case True
    then have up: "round_mag a = (q + 1) * 2 ^ e" by (simp add: rm)
    show ?thesis
    proof (cases "q + 1 < 2 ^ 53")
      case True
      have "2 ^ 52 \<le> q + 1" using q_ge by simp
      from round_mag_multiple [OF this True e1] up show ?thesis by simp
    next
      case False
      with q_lt have "q + 1 = 2 ^ 53" by simp
      then have "(q + 1) * 2 ^ e = 2 ^ 52 * 2 ^ Suc e" by simp
      moreover have "round_mag (2 ^ 52 * 2 ^ Suc e) = 2 ^ 52 * 2 ^ Suc e"
        by (rule round_mag_multiple) simp_all
      ultimately show ?thesis using up by simp
    qed
  qed
qed

text \<open>Converting a double again changes nothing.\<close>

lemma to_double_idem: "to_double m = Num c \<Longrightarrow> to_double c = Num c"
proof -
  assume a: "to_double m = Num c"
  then have c: "c = sgn m * round_mag \<bar>m\<bar>"
    by (auto simp add: to_double_def split: if_splits)
  have nn: "0 \<le> round_mag \<bar>m\<bar>" by (rule round_mag_nonneg) simp
  have ab: "\<bar>c\<bar> = (if m = 0 then 0 else round_mag \<bar>m\<bar>)"
    unfolding c using nn by (simp add: abs_mult)
  have sg: "sgn c * (if m = 0 then 0 else round_mag \<bar>m\<bar>) = c"
    using ab by (metis mult_sgn_abs)
  have "round_mag \<bar>c\<bar> = \<bar>c\<bar>"
    unfolding ab using round_mag_idem [of "\<bar>m\<bar>"] by (simp add: round_mag_small)
  moreover from to_double_finite [OF a] have "\<not> overflow \<le> \<bar>c\<bar>" by simp
  ultimately show ?thesis by (simp add: to_double_def mult_sgn_abs)
qed

lemma parseInt_double: "parseInt s = Num c \<Longrightarrow> to_double c = Num c"
  by (auto simp add: parseInt_def Let_def split: if_splits dest: to_double_idem)

lemma capacity_double: "capacity_of opt = Num c \<Longrightarrow> js_sub (Num c) (Num 0) = Num c"
  unfolding capacity_of_def by (simp add: parseInt_double)

subsection \<open>The order of the numbers\<close>

lemma js_lt_right_NaN [simp]: "js_lt x NaN = False"
  by (cases x) simp_all

lemma js_lt_Infinity_left [simp]: "js_lt Infinity x = False"
  by (cases x) simp_all

lemma js_lt_right_NegInfinity [simp]: "js_lt x NegInfinity = False"
  by (cases x) simp_all

lemma js_sub_right_NaN [simp]: "js_sub x NaN = NaN"
  by (cases x) simp_all

lemma js_lt_irrefl [simp]: "\<not> js_lt x x"
  by (cases x) simp_all

lemma js_lt_trans: "js_lt a b \<Longrightarrow> js_lt b c \<Longrightarrow> js_lt a c"
  by (cases a; cases b; cases c) simp_all

lemma js_lt_between: "js_lt b s \<Longrightarrow> \<not> js_lt a s \<Longrightarrow> a \<noteq> NaN \<Longrightarrow> js_lt b a"
  by (cases a; cases b; cases s) simp_all

lemma js_lt_not_NaN: "js_lt a b \<Longrightarrow> a \<noteq> NaN \<and> b \<noteq> NaN"
  by (cases a; cases b) simp_all

lemma js_lt_Num_Infinity: "js_lt x Infinity \<longleftrightarrow> (\<exists>d. x = Num d) \<or> x = NegInfinity"
  by (cases x) simp_all

section \<open>Properties of the scan\<close>

lemma forEach_length: "length (fst (forEach f k xs s)) = length xs"
  by (induction xs arbitrary: k s) (simp_all add: split_beta Let_def)

lemma forEach_nth:
  assumes "\<And>i j x s s'. fst (f i x s) = fst (f j x s')" and "i < length xs"
  shows "fst (forEach f k xs s) ! i = fst (f 0 (xs ! i) s0)"
  using assms(2)
proof (induction xs arbitrary: k s i)
  case Nil
  then show ?case by simp
next
  case (Cons x xs)
  show ?case
  proof (cases i)
    case 0
    then show ?thesis using assms(1) [of k x s 0 s0] by (simp add: split_beta Let_def)
  next
    case (Suc m)
    then show ?thesis using Cons by (simp add: split_beta Let_def)
  qed
qed

text \<open>What one call of the callback does to the variables.\<close>

lemma room_callback_vars:
  "snd (room_callback r i opt vars) =
     (if fits r opt \<and> js_lt (surplus r opt) (smallestDifference vars)
      then \<lparr>bestFitOption = Some i, smallestDifference = surplus r opt\<rparr> else vars)"
  by (simp add: room_callback_def fits_def surplus_def capacity_of_def Let_def)

text \<open>
  The variables after the scan: either untouched, and then no fitting option has a
  surplus below the start value, or they hold an option of least surplus, the first of
  those.
\<close>

lemma room_forEach_vars:
  assumes "snd (forEach (room_callback r) k opts vars) = vars'"
  shows "(vars' = vars \<and>
            (\<forall>j. j < length opts \<and> fits r (opts ! j) \<longrightarrow>
                   \<not> js_lt (surplus r (opts ! j)) (smallestDifference vars)))
       \<or> (\<exists>i. i < length opts \<and> fits r (opts ! i) \<and>
             vars' = \<lparr>bestFitOption = Some (k + i), smallestDifference = surplus r (opts ! i)\<rparr> \<and>
             js_lt (surplus r (opts ! i)) (smallestDifference vars) \<and>
             (\<forall>j. j < length opts \<and> fits r (opts ! j) \<longrightarrow>
                   \<not> js_lt (surplus r (opts ! j)) (surplus r (opts ! i))) \<and>
             (\<forall>j. j < i \<and> fits r (opts ! j) \<and> surplus r (opts ! j) \<noteq> NaN \<longrightarrow>
                   js_lt (surplus r (opts ! i)) (surplus r (opts ! j))))"
  using assms
proof (induction opts arbitrary: k vars vars')
  case Nil
  then show ?case by simp
next
  case (Cons opt opts)
  let ?v1 = "snd (room_callback r k opt vars)"
  let ?s = "\<lambda>x. surplus r x"
  have run: "snd (forEach (room_callback r) (Suc k) opts ?v1) = vars'"
    using Cons.prems(1) by (simp add: split_beta Let_def)
  note IH = Cons.IH [OF run]
  show ?case
  proof (cases "fits r opt \<and> js_lt (?s opt) (smallestDifference vars)")
    case True
    then have v1: "?v1 = \<lparr>bestFitOption = Some k, smallestDifference = ?s opt\<rparr>"
      by (simp add: room_callback_vars)
    from IH show ?thesis
    proof (elim disjE exE conjE)
      assume same: "vars' = ?v1"
        and rest: "\<forall>j. j < length opts \<and> fits r (opts ! j) \<longrightarrow>
                     \<not> js_lt (?s (opts ! j)) (smallestDifference ?v1)"
      have "\<forall>j. j < length (opt # opts) \<and> fits r ((opt # opts) ! j) \<longrightarrow>
               \<not> js_lt (?s ((opt # opts) ! j)) (?s opt)"
      proof (intro allI impI)
        fix j assume j: "j < length (opt # opts) \<and> fits r ((opt # opts) ! j)"
        show "\<not> js_lt (?s ((opt # opts) ! j)) (?s opt)"
        proof (cases j)
          case 0
          then show ?thesis by simp
        next
          case (Suc m)
          with j rest have "\<not> js_lt (?s (opts ! m)) (smallestDifference ?v1)" by simp
          then show ?thesis by (simp add: v1 Suc)
        qed
      qed
      with same v1 True show ?thesis
        by (intro disjI2 exI [of _ 0]) simp
    next
      fix i
      assume i: "i < length opts" "fits r (opts ! i)"
        and v': "vars' = \<lparr>bestFitOption = Some (Suc k + i), smallestDifference = ?s (opts ! i)\<rparr>"
        and lt: "js_lt (?s (opts ! i)) (smallestDifference ?v1)"
        and mn: "\<forall>j. j < length opts \<and> fits r (opts ! j) \<longrightarrow>
                   \<not> js_lt (?s (opts ! j)) (?s (opts ! i))"
        and st: "\<forall>j. j < i \<and> fits r (opts ! j) \<and> ?s (opts ! j) \<noteq> NaN \<longrightarrow>
                   js_lt (?s (opts ! i)) (?s (opts ! j))"
      from lt v1 have bc: "js_lt (?s (opts ! i)) (?s opt)" by simp
      with True have lt': "js_lt (?s (opts ! i)) (smallestDifference vars)"
        by (blast intro: js_lt_trans)
      have nb: "\<not> js_lt (?s opt) (?s (opts ! i))"
        using bc js_lt_trans [of "?s opt" "?s (opts ! i)" "?s opt"] by auto
      have mn': "\<forall>j. j < length (opt # opts) \<and> fits r ((opt # opts) ! j) \<longrightarrow>
                   \<not> js_lt (?s ((opt # opts) ! j)) (?s (opts ! i))"
      proof (intro allI impI)
        fix j assume j: "j < length (opt # opts) \<and> fits r ((opt # opts) ! j)"
        show "\<not> js_lt (?s ((opt # opts) ! j)) (?s (opts ! i))"
        proof (cases j)
          case 0
          with nb show ?thesis by simp
        next
          case (Suc m)
          with j mn show ?thesis by simp
        qed
      qed
      have st': "\<forall>j. j < Suc i \<and> fits r ((opt # opts) ! j) \<and> ?s ((opt # opts) ! j) \<noteq> NaN \<longrightarrow>
                   js_lt (?s (opts ! i)) (?s ((opt # opts) ! j))"
      proof (intro allI impI)
        fix j assume j: "j < Suc i \<and> fits r ((opt # opts) ! j) \<and> ?s ((opt # opts) ! j) \<noteq> NaN"
        show "js_lt (?s (opts ! i)) (?s ((opt # opts) ! j))"
        proof (cases j)
          case 0
          with bc show ?thesis by simp
        next
          case (Suc m)
          with j st show ?thesis by simp
        qed
      qed
      from i v' lt' mn' st' show ?thesis
        by (intro disjI2 exI [of _ "Suc i"]) simp
    qed
  next
    case False
    then have v1: "?v1 = vars" by (auto simp add: room_callback_vars)
    have no: "fits r opt \<Longrightarrow> \<not> js_lt (?s opt) (smallestDifference vars)"
      using False by blast
    from IH show ?thesis
    proof (elim disjE exE conjE)
      assume same: "vars' = ?v1"
        and rest: "\<forall>j. j < length opts \<and> fits r (opts ! j) \<longrightarrow>
                     \<not> js_lt (?s (opts ! j)) (smallestDifference ?v1)"
      have "\<forall>j. j < length (opt # opts) \<and> fits r ((opt # opts) ! j) \<longrightarrow>
                   \<not> js_lt (?s ((opt # opts) ! j)) (smallestDifference vars)"
      proof (intro allI impI)
        fix j assume j: "j < length (opt # opts) \<and> fits r ((opt # opts) ! j)"
        show "\<not> js_lt (?s ((opt # opts) ! j)) (smallestDifference vars)"
        proof (cases j)
          case 0
          with j no show ?thesis by simp
        next
          case (Suc m)
          with j rest v1 show ?thesis by simp
        qed
      qed
      with same v1 show ?thesis by simp
    next
      fix i
      assume i: "i < length opts" "fits r (opts ! i)"
        and v': "vars' = \<lparr>bestFitOption = Some (Suc k + i), smallestDifference = ?s (opts ! i)\<rparr>"
        and lt: "js_lt (?s (opts ! i)) (smallestDifference ?v1)"
        and mn: "\<forall>j. j < length opts \<and> fits r (opts ! j) \<longrightarrow>
                   \<not> js_lt (?s (opts ! j)) (?s (opts ! i))"
        and st: "\<forall>j. j < i \<and> fits r (opts ! j) \<and> ?s (opts ! j) \<noteq> NaN \<longrightarrow>
                   js_lt (?s (opts ! i)) (?s (opts ! j))"
      from lt v1 have lt': "js_lt (?s (opts ! i)) (smallestDifference vars)" by simp
      have mn': "\<forall>j. j < length (opt # opts) \<and> fits r ((opt # opts) ! j) \<longrightarrow>
                   \<not> js_lt (?s ((opt # opts) ! j)) (?s (opts ! i))"
      proof (intro allI impI)
        fix j assume j: "j < length (opt # opts) \<and> fits r ((opt # opts) ! j)"
        show "\<not> js_lt (?s ((opt # opts) ! j)) (?s (opts ! i))"
        proof (cases j)
          case 0
          with j have "\<not> js_lt (?s opt) (smallestDifference vars)" using no by simp
          with lt' have "\<not> js_lt (?s opt) (?s (opts ! i))" by (blast intro: js_lt_trans)
          with 0 show ?thesis by simp
        next
          case (Suc m)
          with j mn show ?thesis by simp
        qed
      qed
      have st': "\<forall>j. j < Suc i \<and> fits r ((opt # opts) ! j) \<and> ?s ((opt # opts) ! j) \<noteq> NaN \<longrightarrow>
                   js_lt (?s (opts ! i)) (?s ((opt # opts) ! j))"
      proof (intro allI impI)
        fix j assume j: "j < Suc i \<and> fits r ((opt # opts) ! j) \<and> ?s ((opt # opts) ! j) \<noteq> NaN"
        show "js_lt (?s (opts ! i)) (?s ((opt # opts) ! j))"
        proof (cases j)
          case 0
          with j have "\<not> js_lt (?s opt) (smallestDifference vars)" "?s opt \<noteq> NaN"
            using no by simp_all
          from js_lt_between [OF lt' this] 0 show ?thesis by simp
        next
          case (Suc m)
          with j st show ?thesis by simp
        qed
      qed
      from i v' lt' mn' st' show ?thesis
        by (intro disjI2 exI [of _ "Suc i"]) simp
    qed
  qed
qed

lemma room_scan_vars:
  "(snd (room_scan r opts) = \<lparr>bestFitOption = None, smallestDifference = Infinity\<rparr> \<and>
      (\<forall>j. j < length opts \<and> fits r (opts ! j) \<longrightarrow> \<not> js_lt (surplus r (opts ! j)) Infinity))
   \<or> (\<exists>i. i < length opts \<and> fits r (opts ! i) \<and>
         snd (room_scan r opts) =
           \<lparr>bestFitOption = Some i, smallestDifference = surplus r (opts ! i)\<rparr> \<and>
         js_lt (surplus r (opts ! i)) Infinity \<and>
         (\<forall>j. j < length opts \<and> fits r (opts ! j) \<longrightarrow>
               \<not> js_lt (surplus r (opts ! j)) (surplus r (opts ! i))) \<and>
         (\<forall>j. j < i \<and> fits r (opts ! j) \<and> surplus r (opts ! j) \<noteq> NaN \<longrightarrow>
               js_lt (surplus r (opts ! i)) (surplus r (opts ! j))))"
  using room_forEach_vars [OF refl, of r 0 opts "\<lparr>bestFitOption = None, smallestDifference = Infinity\<rparr>"]
  unfolding room_scan_def by simp

lemma room_callback_fst:
  "fst (room_callback r i opt vars) =
     (if opt_value opt = '''' then opt
      else if js_lt (capacity_of opt) r then
        opt\<lparr>disabled := True,
            textContent := too_small_label (js_string (data_name opt)) (capacity_of opt)\<rparr>
      else opt\<lparr>disabled := False,
               textContent := fits_label (js_string (data_name opt)) (capacity_of opt)\<rparr>)"
  by (simp add: room_callback_def capacity_of_def Let_def)

lemma room_scan_nth:
  assumes "i < length opts"
  shows "fst (room_scan r opts) ! i =
     (if opt_value (opts ! i) = '''' then opts ! i
      else if js_lt (capacity_of (opts ! i)) r then
        (opts ! i)\<lparr>disabled := True,
            textContent := too_small_label (js_string (data_name (opts ! i))) (capacity_of (opts ! i))\<rparr>
      else (opts ! i)\<lparr>disabled := False,
               textContent := fits_label (js_string (data_name (opts ! i))) (capacity_of (opts ! i))\<rparr>)"
proof -
  have "fst (room_scan r opts) ! i =
          fst (room_callback r 0 (opts ! i) \<lparr>bestFitOption = None, smallestDifference = Infinity\<rparr>)"
    unfolding room_scan_def
    by (rule forEach_nth [OF _ assms]) (simp add: room_callback_fst)
  then show ?thesis by (simp add: room_callback_fst)
qed

lemma room_scan_length: "length (fst (room_scan r opts)) = length opts"
  by (simp add: room_scan_def forEach_length)

lemma room_scan_candidate:
  "i < length opts \<Longrightarrow> candidate_of (fst (room_scan r opts) ! i) = candidate_of (opts ! i)"
  by (simp add: room_scan_nth candidate_of_def)

lemma room_scan_candidates: "map candidate_of (fst (room_scan r opts)) = map candidate_of opts"
  by (rule nth_equalityI) (simp_all add: room_scan_length room_scan_candidate)

text \<open>The variables depend on the candidates only.\<close>

lemma room_callback_snd_cong:
  "candidate_of o1 = candidate_of o2 \<Longrightarrow>
     snd (room_callback r i o1 vars) = snd (room_callback r i o2 vars)"
  by (simp add: room_callback_def candidate_of_def Let_def)

lemma forEach_room_cong:
  "map candidate_of opts1 = map candidate_of opts2 \<Longrightarrow>
     snd (forEach (room_callback r) k opts1 vars) = snd (forEach (room_callback r) k opts2 vars)"
proof (induction opts1 arbitrary: opts2 k vars)
  case Nil
  then show ?case by simp
next
  case (Cons o1 opts1)
  then obtain o2 rest where o2: "opts2 = o2 # rest" by (cases opts2) auto
  with Cons.prems have c: "candidate_of o1 = candidate_of o2"
    and r: "map candidate_of opts1 = map candidate_of rest" by simp_all
  show ?case
    using Cons.IH [OF r] room_callback_snd_cong [OF c]
    by (simp add: o2 split_beta Let_def)
qed

lemma room_scan_cong:
  "map candidate_of opts1 = map candidate_of opts2 \<Longrightarrow>
     snd (room_scan r opts1) = snd (room_scan r opts2)"
  unfolding room_scan_def by (rule forEach_room_cong)

text \<open>For any requirement, a chosen option is in range, a candidate, and has a capacity.\<close>

lemma room_forEach_best:
  "bestFitOption (snd (forEach (room_callback r) k opts vars)) = bestFitOption vars \<or>
   (\<exists>i<length opts. bestFitOption (snd (forEach (room_callback r) k opts vars)) = Some (k + i) \<and>
       opt_value (opts ! i) \<noteq> '''' \<and> capacity_of (opts ! i) \<noteq> NaN \<and>
       \<not> js_lt (capacity_of (opts ! i)) r)"
proof (induction opts arbitrary: k vars)
  case Nil
  then show ?case by simp
next
  case (Cons opt opts)
  let ?v1 = "snd (room_callback r k opt vars)"
  have step: "bestFitOption ?v1 = bestFitOption vars \<or>
     (bestFitOption ?v1 = Some k \<and> opt_value opt \<noteq> '''' \<and> capacity_of opt \<noteq> NaN \<and>
      \<not> js_lt (capacity_of opt) r)"
    by (cases "capacity_of opt") (auto simp add: room_callback_def capacity_of_def Let_def)
  have unf: "snd (forEach (room_callback r) k (opt # opts) vars) =
             snd (forEach (room_callback r) (Suc k) opts ?v1)"
    by (simp add: split_beta Let_def)
  from Cons.IH [of "Suc k" ?v1] show ?case
  proof (elim disjE exE conjE)
    assume "bestFitOption (snd (forEach (room_callback r) (Suc k) opts ?v1)) = bestFitOption ?v1"
    with step show ?thesis unfolding unf by (auto intro: exI [of _ 0])
  next
    fix i assume "i < length opts"
      "bestFitOption (snd (forEach (room_callback r) (Suc k) opts ?v1)) = Some (Suc k + i)"
      "opt_value (opts ! i) \<noteq> ''''" "capacity_of (opts ! i) \<noteq> NaN"
      "\<not> js_lt (capacity_of (opts ! i)) r"
    then show ?thesis unfolding unf
      by (intro disjI2 exI [of _ "Suc i"]) simp
  qed
qed

lemma room_scan_best:
  assumes "bestFitOption (snd (room_scan r opts)) = Some i"
  shows "i < length opts \<and> opt_value (opts ! i) \<noteq> '''' \<and> capacity_of (opts ! i) \<noteq> NaN \<and>
         \<not> js_lt (capacity_of (opts ! i)) r"
  using room_forEach_best [of r 0 opts "\<lparr>bestFitOption = None, smallestDifference = Infinity\<rparr>"] assms
  unfolding room_scan_def by auto

text \<open>The bus scan is the room scan plus the flag.\<close>

lemma bus_callback_room:
  "fst (bus_callback c i opt bv) =
     fst (room_callback c i opt \<lparr>bestFitOption = bestFit bv, smallestDifference = minWaste bv\<rparr>) \<and>
   bestFit (snd (bus_callback c i opt bv)) =
     bestFitOption (snd (room_callback c i opt \<lparr>bestFitOption = bestFit bv, smallestDifference = minWaste bv\<rparr>)) \<and>
   minWaste (snd (bus_callback c i opt bv)) =
     smallestDifference (snd (room_callback c i opt \<lparr>bestFitOption = bestFit bv, smallestDifference = minWaste bv\<rparr>)) \<and>
   validBusFound (snd (bus_callback c i opt bv)) =
     (validBusFound bv \<or> opt_value opt \<noteq> '''' \<and> \<not> js_lt (capacity_of opt) c)"
proof (cases "opt_value opt = ''''")
  case True
  then show ?thesis by (simp add: bus_callback_def room_callback_def)
next
  case False
  note cand = this
  show ?thesis
  proof (cases "js_lt (capacity_of opt) c")
    case True
    with cand show ?thesis
      by (simp add: bus_callback_def room_callback_def js_gt_def capacity_of_def Let_def)
  next
    case False
    note fits = this
    show ?thesis
    proof (cases "js_lt (js_sub (capacity_of opt) c) (minWaste bv)")
      case True
      with cand fits show ?thesis
        by (simp add: bus_callback_def room_callback_def js_gt_def capacity_of_def Let_def)
    next
      case False
      with cand fits show ?thesis
        by (simp add: bus_callback_def room_callback_def js_gt_def capacity_of_def Let_def)
    qed
  qed
qed

lemma bus_forEach_room:
  "fst (forEach (bus_callback c) k opts bv) =
     fst (forEach (room_callback c) k opts \<lparr>bestFitOption = bestFit bv, smallestDifference = minWaste bv\<rparr>) \<and>
   bestFit (snd (forEach (bus_callback c) k opts bv)) =
     bestFitOption (snd (forEach (room_callback c) k opts \<lparr>bestFitOption = bestFit bv, smallestDifference = minWaste bv\<rparr>)) \<and>
   minWaste (snd (forEach (bus_callback c) k opts bv)) =
     smallestDifference (snd (forEach (room_callback c) k opts \<lparr>bestFitOption = bestFit bv, smallestDifference = minWaste bv\<rparr>)) \<and>
   validBusFound (snd (forEach (bus_callback c) k opts bv)) =
     (validBusFound bv \<or> (\<exists>j<length opts. opt_value (opts ! j) \<noteq> '''' \<and> \<not> js_lt (capacity_of (opts ! j)) c))"
proof (induction opts arbitrary: k bv)
  case Nil
  then show ?case by simp
next
  case (Cons opt opts)
  let ?rv = "\<lparr>bestFitOption = bestFit bv, smallestDifference = minWaste bv\<rparr>"
  let ?b1 = "snd (bus_callback c k opt bv)"
  let ?r1 = "snd (room_callback c k opt ?rv)"
  have r1: "?r1 = \<lparr>bestFitOption = bestFit ?b1, smallestDifference = minWaste ?b1\<rparr>"
    using bus_callback_room [of c k opt bv] by simp
  have ex: "(\<exists>j<Suc n. P j) = (P 0 \<or> (\<exists>j<n. P (Suc j)))" for P n
    by (auto simp add: less_Suc_eq_0_disj)
  have f1: "fst (bus_callback c k opt bv) = fst (room_callback c k opt ?rv)"
    and v1: "validBusFound ?b1 = (validBusFound bv \<or> opt_value opt \<noteq> '''' \<and> \<not> js_lt (capacity_of opt) c)"
    using bus_callback_room [of c k opt bv] by simp_all
  note IH = Cons.IH [of "Suc k" ?b1, folded r1]
  have unf_b: "forEach (bus_callback c) k (opt # opts) bv =
      (fst (bus_callback c k opt bv) # fst (forEach (bus_callback c) (Suc k) opts ?b1),
       snd (forEach (bus_callback c) (Suc k) opts ?b1))"
    by (simp add: split_beta Let_def)
  have unf_r: "forEach (room_callback c) k (opt # opts) ?rv =
      (fst (room_callback c k opt ?rv) # fst (forEach (room_callback c) (Suc k) opts ?r1),
       snd (forEach (room_callback c) (Suc k) opts ?r1))"
    by (simp add: split_beta Let_def)
  show ?case
    unfolding unf_b unf_r using IH by (simp add: f1 v1 ex)
qed

lemma bus_scan_room:
  "fst (bus_scan c opts) = fst (room_scan c opts) \<and>
   bestFit (snd (bus_scan c opts)) = bestFitOption (snd (room_scan c opts)) \<and>
   minWaste (snd (bus_scan c opts)) = smallestDifference (snd (room_scan c opts)) \<and>
   validBusFound (snd (bus_scan c opts)) =
     (\<exists>j<length opts. opt_value (opts ! j) \<noteq> '''' \<and> \<not> js_lt (capacity_of (opts ! j)) c)"
  using bus_forEach_room [of c 0 opts "\<lparr>validBusFound = False, bestFit = None, minWaste = Infinity\<rparr>"]
  by (simp add: bus_scan_def room_scan_def)

section \<open>The listeners, by the outcome of the evaluation\<close>

lemma room_recommend_options: "options (room_recommend r page) = fst (room_scan r (options page))"
  by (simp add: room_recommend_def Let_def split_beta split: option.splits)

lemma bus_recommend_options: "bus_options (bus_recommend c page) = fst (room_scan c (bus_options page))"
  by (simp add: bus_recommend_def Let_def split_beta bus_scan_room split: option.splits)

lemma evaluate_BestFit_iff:
  "evaluate r opts = BestFit i s \<longleftrightarrow>
     bestFitOption (snd (room_scan r opts)) = Some i \<and> smallestDifference (snd (room_scan r opts)) = s"
  by (auto simp add: evaluate_def Let_def split: option.splits)

lemma evaluate_NoFit_iff:
  "evaluate r opts = NoFit x \<longleftrightarrow>
     bestFitOption (snd (room_scan r opts)) = None \<and> js_gt r (Num 0) \<and> x = r"
  by (auto simp add: evaluate_def Let_def split: option.splits)

lemma evaluate_Empty_iff:
  "evaluate r opts = Empty \<longleftrightarrow>
     bestFitOption (snd (room_scan r opts)) = None \<and> \<not> js_gt r (Num 0)"
  by (auto simp add: evaluate_def Let_def split: option.splits)

lemma room_recommend_BestFit:
  assumes "evaluate r (options page) = BestFit i s"
  shows "room_recommend r page =
     page\<lparr>options := fst (room_scan r (options page)),
          spaceSelect_value := opt_value (options page ! i),
          recommendText := (recommendText page)\<lparr>display := ''block'',
            innerHTML := best_fit_html (js_string (data_name (options page ! i)))\<rparr>\<rparr>"
proof -
  from assms have b: "bestFitOption (snd (room_scan r (options page))) = Some i"
    by (simp add: evaluate_BestFit_iff)
  from room_scan_best [OF b] have "i < length (options page)" by simp
  from room_scan_candidate [OF this, of r]
  have "opt_value (fst (room_scan r (options page)) ! i) = opt_value (options page ! i)"
       "data_name (fst (room_scan r (options page)) ! i) = data_name (options page ! i)"
    by (simp_all add: candidate_of_def)
  with b show ?thesis by (simp add: room_recommend_def Let_def split_beta)
qed

lemma room_recommend_NoFit:
  assumes "evaluate r (options page) = NoFit x"
  shows "room_recommend r page =
     page\<lparr>options := fst (room_scan r (options page)),
          spaceSelect_value := '''',
          recommendText := (recommendText page)\<lparr>display := ''block'',
            className := [''form-text'', ''text-danger'', ''fw-bold'', ''mt-2''],
            innerHTML := no_room_html r\<rparr>\<rparr>"
  using assms by (simp add: evaluate_NoFit_iff room_recommend_def Let_def split_beta)

lemma room_recommend_Empty:
  assumes "evaluate r (options page) = Empty"
  shows "room_recommend r page =
     page\<lparr>options := fst (room_scan r (options page)),
          recommendText := (recommendText page)\<lparr>display := ''none''\<rparr>\<rparr>"
  using assms by (simp add: evaluate_Empty_iff room_recommend_def Let_def split_beta)

lemma bus_scan_fst: "fst (bus_scan c opts) = fst (room_scan c opts)"
  by (simp add: bus_scan_room)

lemma banner_add_class:
  "classList_add ''text-danger'' [''form-text'', ''fw-bold'', ''mt-2''] =
     [''form-text'', ''fw-bold'', ''mt-2'', ''text-danger'']"
  "classList_add ''text-success'' [''form-text'', ''fw-bold'', ''mt-2''] =
     [''form-text'', ''fw-bold'', ''mt-2'', ''text-success'']"
  by (simp_all add: classList_add_def)

lemma evaluate_bus_eq:
  "evaluate_bus c opts =
     (if js_gt c (Num 0) \<and>
         \<not> (\<exists>j<length opts. opt_value (opts ! j) \<noteq> '''' \<and> \<not> js_lt (capacity_of (opts ! j)) c)
      then NoFit c
      else case bestFitOption (snd (room_scan c opts)) of
             Some i \<Rightarrow> BestFit i (smallestDifference (snd (room_scan c opts)))
           | None \<Rightarrow> Empty)"
  by (auto simp add: evaluate_bus_def bus_scan_room Let_def split: option.splits)

lemma evaluate_bus_BestFit:
  assumes "evaluate r opts = BestFit i s"
  shows "evaluate_bus r opts = BestFit i s"
proof -
  from assms have b: "bestFitOption (snd (room_scan r opts)) = Some i"
    and s: "smallestDifference (snd (room_scan r opts)) = s"
    by (simp_all add: evaluate_BestFit_iff)
  from room_scan_best [OF b]
  have "\<exists>j<length opts. opt_value (opts ! j) \<noteq> '''' \<and> \<not> js_lt (capacity_of (opts ! j)) r"
    by blast
  with b s show ?thesis by (simp add: evaluate_bus_eq)
qed

lemma evaluate_bus_BestFit_room:
  assumes "evaluate_bus r opts = BestFit i s"
  shows "evaluate r opts = BestFit i s"
  using assms by (auto simp add: evaluate_bus_eq evaluate_BestFit_iff split: if_splits option.splits)

lemma bus_recommend_NoFit:
  assumes "evaluate_bus c (bus_options page) = NoFit x"
  shows "bus_recommend c page =
     page\<lparr>bus_options := fst (room_scan c (bus_options page)),
          busSelect_value := '''',
          submitBtn := (submitBtn page)\<lparr>btn_disabled := True,
            btn_textContent := ''Cannot Book: Too many passengers'',
            btn_classList := classList_remove ''btn-google''
              (classList_add ''btn-secondary'' (btn_classList (submitBtn page)))\<rparr>,
          suggestionText := (suggestionText page)\<lparr>display := ''block'',
            className := [''form-text'', ''fw-bold'', ''mt-2'', ''text-danger''],
            innerHTML := no_vehicle_html c\<rparr>\<rparr>"
proof -
  from assms have "js_gt c (Num 0) \<and> \<not> validBusFound (snd (bus_scan c (bus_options page)))"
    by (auto simp add: evaluate_bus_def Let_def split: if_splits option.splits)
  then show ?thesis
    by (auto simp add: bus_recommend_def Let_def split_beta bus_scan_fst banner_add_class)
qed

lemma bus_recommend_BestFit:
  assumes "evaluate_bus c (bus_options page) = BestFit i s"
  shows "bus_recommend c page =
     page\<lparr>bus_options := fst (room_scan c (bus_options page)),
          busSelect_value := opt_value (bus_options page ! i),
          submitBtn := (submitBtn page)\<lparr>btn_disabled := False,
            btn_textContent := ''Submit Request'',
            btn_classList := classList_add ''btn-google''
              (classList_remove ''btn-secondary'' (btn_classList (submitBtn page)))\<rparr>,
          suggestionText := (suggestionText page)\<lparr>display := ''block'',
            className := [''form-text'', ''fw-bold'', ''mt-2'', ''text-success''],
            innerHTML := bus_fit_html (js_string (data_name (bus_options page ! i))) c\<rparr>\<rparr>"
proof -
  from assms have g: "\<not> (js_gt c (Num 0) \<and> \<not> validBusFound (snd (bus_scan c (bus_options page))))"
    and b: "bestFit (snd (bus_scan c (bus_options page))) = Some i"
    by (auto simp add: evaluate_bus_def Let_def split: if_splits option.splits)
  from b have b': "bestFitOption (snd (room_scan c (bus_options page))) = Some i"
    by (simp add: bus_scan_room)
  from room_scan_best [OF b'] have "i < length (bus_options page)" by simp
  from room_scan_candidate [OF this, of c]
  have "opt_value (fst (room_scan c (bus_options page)) ! i) = opt_value (bus_options page ! i)"
       "data_name (fst (room_scan c (bus_options page)) ! i) = data_name (bus_options page ! i)"
    by (simp_all add: candidate_of_def)
  with g b show ?thesis
    by (auto simp add: bus_recommend_def Let_def split_beta bus_scan_fst banner_add_class)
qed

lemma bus_recommend_Empty:
  assumes "evaluate_bus c (bus_options page) = Empty"
  shows "bus_recommend c page =
     page\<lparr>bus_options := fst (room_scan c (bus_options page)),
          suggestionText := (suggestionText page)\<lparr>display := ''none'',
            className := [''form-text'', ''fw-bold'', ''mt-2'']\<rparr>\<rparr>"
proof -
  from assms have g: "\<not> (js_gt c (Num 0) \<and> \<not> validBusFound (snd (bus_scan c (bus_options page))))"
    and b: "bestFit (snd (bus_scan c (bus_options page))) = None"
    by (auto simp add: evaluate_bus_def Let_def split: if_splits option.splits)
  then show ?thesis
    by (auto simp add: bus_recommend_def Let_def split_beta bus_scan_fst)
qed

section \<open>Outcomes for an integer requirement\<close>

lemma eligible_fits:
  "eligible n opt c \<Longrightarrow> fits (Num n) opt \<and> surplus (Num n) opt = js_sub (Num c) (Num n)"
  by (simp add: eligible_def fits_def surplus_def)

lemma fits_finite_eligible:
  assumes "fits (Num n) opt" and "js_lt (surplus (Num n) opt) Infinity"
  shows "\<exists>c. eligible n opt c"
  using assms by (cases "capacity_of opt") (simp_all add: fits_def surplus_def eligible_def)

lemma js_sub_finite_lt: "\<bar>a - b\<bar> < overflow \<Longrightarrow> js_lt (js_sub (Num a) (Num b)) Infinity"
  by (simp add: to_double_def)

text \<open>A capacity of at least a positive requirement has a finite surplus.\<close>

lemma eligible_surplus_finite:
  assumes "eligible n opt c" and "0 \<le> n"
  shows "js_lt (js_sub (Num c) (Num n)) Infinity"
proof -
  from assms(1) have c: "capacity_of opt = Num c" and le: "n \<le> c" by (simp_all add: eligible_def)
  from capacity_finite [OF c] le assms(2) have "\<bar>c - n\<bar> < overflow" by simp
  then show ?thesis by (rule js_sub_finite_lt)
qed

lemma evaluate_some:
  assumes "j < length opts" and "eligible n (opts ! j) c"
    and "js_lt (js_sub (Num c) (Num n)) Infinity"
  shows "\<exists>i b. i < length opts \<and> eligible n (opts ! i) b \<and>
           evaluate (Num n) opts = BestFit i (js_sub (Num b) (Num n)) \<and>
           js_lt (js_sub (Num b) (Num n)) Infinity \<and>
           (\<forall>k c'. k < length opts \<and> eligible n (opts ! k) c' \<longrightarrow>
               \<not> js_lt (js_sub (Num c') (Num n)) (js_sub (Num b) (Num n))) \<and>
           (\<forall>k c'. k < i \<and> eligible n (opts ! k) c' \<longrightarrow>
               js_lt (js_sub (Num b) (Num n)) (js_sub (Num c') (Num n)))"
proof -
  let ?r = "Num n"
  from eligible_fits [OF assms(2)] assms(3)
  have fj: "fits ?r (opts ! j)" and sj: "js_lt (surplus ?r (opts ! j)) Infinity" by simp_all
  from room_scan_vars [of ?r opts] show ?thesis
  proof (elim disjE exE conjE)
    assume "\<forall>j. j < length opts \<and> fits ?r (opts ! j) \<longrightarrow> \<not> js_lt (surplus ?r (opts ! j)) Infinity"
    with assms(1) fj sj show ?thesis by blast
  next
    fix i
    assume i: "i < length opts" and fi: "fits ?r (opts ! i)"
      and v: "snd (room_scan ?r opts) =
                \<lparr>bestFitOption = Some i, smallestDifference = surplus ?r (opts ! i)\<rparr>"
      and fin: "js_lt (surplus ?r (opts ! i)) Infinity"
      and mn: "\<forall>j. j < length opts \<and> fits ?r (opts ! j) \<longrightarrow>
                 \<not> js_lt (surplus ?r (opts ! j)) (surplus ?r (opts ! i))"
      and st: "\<forall>j. j < i \<and> fits ?r (opts ! j) \<and> surplus ?r (opts ! j) \<noteq> NaN \<longrightarrow>
                 js_lt (surplus ?r (opts ! i)) (surplus ?r (opts ! j))"
    from fits_finite_eligible [OF fi fin] obtain b where b: "eligible n (opts ! i) b" by blast
    from eligible_fits [OF b] have sb: "surplus ?r (opts ! i) = js_sub (Num b) (Num n)" by simp
    have e: "evaluate ?r opts = BestFit i (js_sub (Num b) (Num n))"
      using v sb by (simp add: evaluate_BestFit_iff)
    have mn': "\<forall>k c'. k < length opts \<and> eligible n (opts ! k) c' \<longrightarrow>
               \<not> js_lt (js_sub (Num c') (Num n)) (js_sub (Num b) (Num n))"
    proof (intro allI impI)
      fix k c' assume k: "k < length opts \<and> eligible n (opts ! k) c'"
      with eligible_fits [of n "opts ! k" c']
      have "fits ?r (opts ! k)" "surplus ?r (opts ! k) = js_sub (Num c') (Num n)" by simp_all
      with mn k sb show "\<not> js_lt (js_sub (Num c') (Num n)) (js_sub (Num b) (Num n))"
        by (metis (no_types))
    qed
    have st': "\<forall>k c'. k < i \<and> eligible n (opts ! k) c' \<longrightarrow>
               js_lt (js_sub (Num b) (Num n)) (js_sub (Num c') (Num n))"
    proof (intro allI impI)
      fix k c' assume k: "k < i \<and> eligible n (opts ! k) c'"
      with eligible_fits [of n "opts ! k" c']
      have f: "fits ?r (opts ! k)" and s: "surplus ?r (opts ! k) = js_sub (Num c') (Num n)"
        by simp_all
      then have "surplus ?r (opts ! k) \<noteq> NaN" by simp
      with st k f have "js_lt (surplus ?r (opts ! i)) (surplus ?r (opts ! k))" by simp
      then show "js_lt (js_sub (Num b) (Num n)) (js_sub (Num c') (Num n))"
        by (simp add: sb s)
    qed
    from i b e fin mn' st' show ?thesis
      by (intro exI [of _ i] exI [of _ b]) (simp add: sb)
  qed
qed

lemma evaluate_none:
  assumes "\<forall>j c. j < length opts \<longrightarrow> \<not> eligible n (opts ! j) c"
  shows "evaluate (Num n) opts = (if 0 < n then NoFit (Num n) else Empty)"
proof -
  from room_scan_vars [of "Num n" opts]
  have "bestFitOption (snd (room_scan (Num n) opts)) = None"
  proof (elim disjE exE conjE)
    assume "snd (room_scan (Num n) opts) = \<lparr>bestFitOption = None, smallestDifference = Infinity\<rparr>"
    then show ?thesis by simp
  next
    fix i
    assume "i < length opts" "fits (Num n) (opts ! i)" "js_lt (surplus (Num n) (opts ! i)) Infinity"
    with fits_finite_eligible [of n "opts ! i"] assms show ?thesis by blast
  qed
  then show ?thesis by (simp add: evaluate_def js_gt_def)
qed

subsection \<open>Exact differences\<close>

lemma surplus_exact_pos:
  "0 \<le> n \<Longrightarrow> n \<le> c \<Longrightarrow> c \<le> 2 ^ 53 \<Longrightarrow> js_sub (Num c) (Num n) = Num (c - n)"
  by (rule js_sub_Num_exact) simp

lemma surplus_exact_safe:
  "0 \<le> c \<Longrightarrow> c \<le> 2 ^ 52 \<Longrightarrow> - (2 ^ 52) \<le> n \<Longrightarrow> n \<le> c \<Longrightarrow>
     js_sub (Num c) (Num n) = Num (c - n)"
  by (rule js_sub_Num_exact) simp

lemma nonneg_capacity_eligible:
  assumes "opt_value opt \<noteq> ''''" and "nonneg_capacity opt" and "n \<le> 0"
  shows "\<exists>c. eligible n opt c \<and> 0 \<le> c"
  using assms by (cases "capacity_of opt") (simp_all add: nonneg_capacity_def eligible_def)

lemma safe_capacity_nonneg: "safe_capacity opt \<Longrightarrow> nonneg_capacity opt"
  by (cases "capacity_of opt") (simp_all add: safe_capacity_def nonneg_capacity_def)

lemma safe_capacity_Num:
  "safe_capacity opt \<Longrightarrow> \<exists>c. capacity_of opt = Num c \<and> 0 \<le> c \<and> c \<le> 2 ^ 52"
  by (cases "capacity_of opt") (simp_all add: safe_capacity_def)

lemma evaluate_bus_not_Empty:
  assumes "k < length opts" and "opt_value (opts ! k) \<noteq> ''''"
    and "\<forall>j<length opts. opt_value (opts ! j) \<noteq> '''' \<longrightarrow> safe_capacity (opts ! j)"
    and "- (2 ^ 52) \<le> n"
  shows "evaluate_bus (Num n) opts \<noteq> Empty"
proof (cases "\<exists>j c. j < length opts \<and> eligible n (opts ! j) c")
  case True
  then obtain j c where j: "j < length opts" and el: "eligible n (opts ! j) c" by blast
  from el have cand: "opt_value (opts ! j) \<noteq> ''''" and c: "capacity_of (opts ! j) = Num c"
    and le: "n \<le> c" by (simp_all add: eligible_def)
  from assms(3) j cand have "safe_capacity (opts ! j)" by simp
  from safe_capacity_Num [OF this] c have "0 \<le> c" "c \<le> 2 ^ 52" by simp_all
  with assms(4) le have "js_sub (Num c) (Num n) = Num (c - n)" by (intro surplus_exact_safe)
  then have "js_lt (js_sub (Num c) (Num n)) Infinity" by simp
  from evaluate_some [OF j el this] obtain i b
    where "evaluate (Num n) opts = BestFit i (js_sub (Num b) (Num n))" by blast
  from evaluate_bus_BestFit [OF this] show ?thesis by simp
next
  case False
  have pos: "0 < n"
  proof (rule ccontr)
    assume "\<not> 0 < n"
    then have "n \<le> 0" by simp
    moreover from assms have "nonneg_capacity (opts ! k)" by (simp add: safe_capacity_nonneg)
    ultimately obtain c where "eligible n (opts ! k) c"
      using nonneg_capacity_eligible [OF assms(2), of n] by blast
    with assms(1) have "\<exists>j c. j < length opts \<and> eligible n (opts ! j) c"
      by (intro exI [of _ k] exI [of _ c] conjI)
    with False show False by blast
  qed
  have "opt_value (opts ! j) = '''' \<or> js_lt (capacity_of (opts ! j)) (Num n)"
    if j: "j < length opts" for j
  proof (cases "opt_value (opts ! j) = ''''")
    case True
    then show ?thesis by simp
  next
    case cand: False
    with assms(3) j have "safe_capacity (opts ! j)" by simp
    from safe_capacity_Num [OF this] obtain c where c: "capacity_of (opts ! j) = Num c" by blast
    with False j cand have "\<not> n \<le> c" by (auto simp add: eligible_def)
    with c show ?thesis by simp
  qed
  then have "\<not> (\<exists>j<length opts. opt_value (opts ! j) \<noteq> '''' \<and> \<not> js_lt (capacity_of (opts ! j)) (Num n))"
    by blast
  with pos show ?thesis by (simp add: evaluate_bus_eq js_gt_def)
qed


section \<open>Sequences of events\<close>

lemma evaluate_cong:
  "map candidate_of opts1 = map candidate_of opts2 \<Longrightarrow> evaluate r opts1 = evaluate r opts2"
  using room_scan_cong [of opts1 opts2 r] by (simp add: evaluate_def)

lemma countInput_input_candidates:
  "map candidate_of (options (countInput_input v page)) = map candidate_of (options page)"
  by (simp add: countInput_input_def room_recommend_options room_scan_candidates)

lemma countInput_events_candidates:
  "map candidate_of (options (countInput_events vs page)) = map candidate_of (options page)"
  by (induction vs arbitrary: page) (simp_all add: countInput_input_candidates)

lemma countInput_events_append:
  "countInput_events (xs @ ys) page = countInput_events ys (countInput_events xs page)"
  by (induction xs arbitrary: page) simp_all

lemma room_recommend_className:
  "className (recommendText (room_recommend r page)) =
     (case evaluate r (options page) of
        NoFit x \<Rightarrow> [''form-text'', ''text-danger'', ''fw-bold'', ''mt-2'']
      | _ \<Rightarrow> className (recommendText page))"
proof (cases "evaluate r (options page)")
  case (BestFit i s)
  from room_recommend_BestFit [OF this] BestFit show ?thesis by simp
next
  case (NoFit x)
  from room_recommend_NoFit [OF this] NoFit show ?thesis by simp
next
  case Empty
  from room_recommend_Empty [OF this] Empty show ?thesis by simp
qed

lemma danger_stays:
  assumes "className (recommendText page) = [''form-text'', ''text-danger'', ''fw-bold'', ''mt-2'']"
  shows "className (recommendText (countInput_events vs page)) =
           [''form-text'', ''text-danger'', ''fw-bold'', ''mt-2'']"
  using assms
proof (induction vs arbitrary: page)
  case Nil
  then show ?case by simp
next
  case (Cons v vs)
  have "className (recommendText (countInput_input v page)) =
          [''form-text'', ''text-danger'', ''fw-bold'', ''mt-2'']"
    using Cons.prems
    by (simp add: countInput_input_def room_recommend_className split: RecommendationResult.splits)
  from Cons.IH [OF this] show ?case by simp
qed

lemma bus_recommend_className:
  "className (suggestionText (bus_recommend c page)) =
     (case evaluate_bus c (bus_options page) of
        NoFit x \<Rightarrow> [''form-text'', ''fw-bold'', ''mt-2'', ''text-danger'']
      | BestFit i s \<Rightarrow> [''form-text'', ''fw-bold'', ''mt-2'', ''text-success'']
      | Empty \<Rightarrow> [''form-text'', ''fw-bold'', ''mt-2''])"
proof (cases "evaluate_bus c (bus_options page)")
  case (BestFit i s)
  from bus_recommend_BestFit [OF this] BestFit show ?thesis by simp
next
  case (NoFit x)
  from bus_recommend_NoFit [OF this] NoFit show ?thesis by simp
next
  case Empty
  from bus_recommend_Empty [OF this] Empty show ?thesis by simp
qed


section \<open>The arithmetic on examples\<close>

text \<open>
  Beyond \<open>2\<^sup>5\<^sup>3\<close> a parsed integer is rounded to the nearest double, ties to the even
  significand, and so is a difference; from \<open>2\<^sup>1\<^sup>0\<^sup>2\<^sup>4 - 2\<^sup>9\<^sup>7\<^sup>0\<close> on the result is infinite.
\<close>

lemma parseInt_rounds_to_even:
  "parseInt ''9007199254740993'' = Num 9007199254740992 \<and>
   parseInt ''9007199254740995'' = Num 9007199254740996 \<and>
   parseInt ''-1152921504606846977'' = Num (- 1152921504606846976)"
  by code_simp

lemma js_sub_rounds:
  "js_sub (Num 9007199254740998) (Num 1) = Num 9007199254740996 \<and>
   js_sub (Num 9007199254740996) (Num 1) = Num 9007199254740996 \<and>
   js_sub (Num 50) (Num (- 1152921504606846976)) = Num 1152921504606846976 \<and>
   js_sub (Num 30) (Num (- 1152921504606846976)) = Num 1152921504606846976 \<and>
   js_sub (Num 9007199254740992) (Num (- 1)) = Num 9007199254740992"
  by code_simp

lemma to_double_overflows:
  "to_double (10 ^ 309) = Infinity \<and> to_double (- (10 ^ 309)) = NegInfinity"
  by code_simp

text \<open>
  A number prints with the fewest digits that read back as the same double, in exponent
  notation from \<open>10\<^sup>2\<^sup>1\<close> on.
\<close>

lemma js_num_string_exponent:
  "js_num_string (Num 123456789012345680000) = ''123456789012345680000'' \<and>
   js_num_string (Num 1000000000000000000000) = ''1e+21'' \<and>
   js_num_string (Num (- 1180591620717411303424)) = ''-1.1805916207174113e+21'' \<and>
   js_num_string (Num 1152921504606846976) = ''1152921504606847000''"
  by code_simp
section \<open>The claims\<close>

text \<open>
  C1. For a required count \<open>n > 0\<close> and options among which some candidate has an
  integer capacity of at least \<open>n\<close>, the evaluation is a best fit: the chosen option
  \<open>i\<close> is an eligible candidate, the surplus reported is its capacity minus \<open>n\<close> as the
  listener computes it, no eligible candidate has a smaller surplus, and every eligible
  candidate listed before \<open>i\<close> has a strictly larger one. For capacities up to
  \<open>2\<^sup>5\<^sup>3\<close> the surplus is the exact difference, and the capacity of \<open>i\<close> is the least,
  strictly below those listed before it. Room and bus listeners choose alike.
\<close>

theorem C1_best_fit_least_surplus_earliest:
  assumes "0 < n" and "j < length opts" and "eligible n (opts ! j) c"
  shows "\<exists>i b. i < length opts \<and> eligible n (opts ! i) b \<and>
           evaluate (Num n) opts = BestFit i (js_sub (Num b) (Num n)) \<and>
           evaluate_bus (Num n) opts = BestFit i (js_sub (Num b) (Num n)) \<and>
           (\<forall>k c'. k < length opts \<and> eligible n (opts ! k) c' \<longrightarrow>
               \<not> js_lt (js_sub (Num c') (Num n)) (js_sub (Num b) (Num n))) \<and>
           (\<forall>k c'. k < i \<and> eligible n (opts ! k) c' \<longrightarrow>
               js_lt (js_sub (Num b) (Num n)) (js_sub (Num c') (Num n))) \<and>
           (b \<le> 2 ^ 53 \<longrightarrow>
              js_sub (Num b) (Num n) = Num (b - n) \<and>
              (\<forall>k c'. k < length opts \<and> eligible n (opts ! k) c' \<and> c' \<le> 2 ^ 53 \<longrightarrow>
                  b - n \<le> c' - n \<and> (k < i \<longrightarrow> b - n < c' - n)))"
proof -
  from assms(1) have n0: "0 \<le> n" by simp
  from evaluate_some [OF assms(2,3) eligible_surplus_finite [OF assms(3) n0]]
  obtain i b where ib:
    "i < length opts" "eligible n (opts ! i) b"
    "evaluate (Num n) opts = BestFit i (js_sub (Num b) (Num n))"
    and mn: "\<forall>k c'. k < length opts \<and> eligible n (opts ! k) c' \<longrightarrow>
               \<not> js_lt (js_sub (Num c') (Num n)) (js_sub (Num b) (Num n))"
    and st: "\<forall>k c'. k < i \<and> eligible n (opts ! k) c' \<longrightarrow>
               js_lt (js_sub (Num b) (Num n)) (js_sub (Num c') (Num n))"
    by blast
  from ib(2) have nb: "n \<le> b" by (simp add: eligible_def)
  have exact: "js_sub (Num b) (Num n) = Num (b - n) \<and>
      (\<forall>k c'. k < length opts \<and> eligible n (opts ! k) c' \<and> c' \<le> 2 ^ 53 \<longrightarrow>
          b - n \<le> c' - n \<and> (k < i \<longrightarrow> b - n < c' - n))"
    if b53: "b \<le> 2 ^ 53"
  proof (intro conjI allI impI)
    show eb: "js_sub (Num b) (Num n) = Num (b - n)"
      by (rule surplus_exact_pos [OF n0 nb b53])
    fix k c' assume k: "k < length opts \<and> eligible n (opts ! k) c' \<and> c' \<le> 2 ^ 53"
    then have "n \<le> c'" by (simp add: eligible_def)
    with k have ec: "js_sub (Num c') (Num n) = Num (c' - n)"
      by (intro surplus_exact_pos [OF n0]) simp_all
    from mn k have m: "\<not> js_lt (js_sub (Num c') (Num n)) (js_sub (Num b) (Num n))" by blast
    from m [unfolded eb ec] show "b - n \<le> c' - n" by simp
    assume "k < i"
    with st k have l: "js_lt (js_sub (Num b) (Num n)) (js_sub (Num c') (Num n))" by blast
    from l [unfolded eb ec] show "b - n < c' - n" by simp
  qed
  from ib mn st exact evaluate_bus_BestFit [OF ib(3)] show ?thesis
    by (intro exI [of _ i] exI [of _ b]) blast
qed

theorem C1_witness:
  "(0::int) < 40 \<and> (2::nat) < length three_rooms \<and> eligible 40 (three_rooms ! 2) 50 \<and>
   (\<exists>i b. i < length three_rooms \<and> eligible 40 (three_rooms ! i) b \<and>
       evaluate (Num 40) three_rooms = BestFit i (js_sub (Num b) (Num 40)) \<and>
       evaluate_bus (Num 40) three_rooms = BestFit i (js_sub (Num b) (Num 40)) \<and>
       (\<forall>k c'. k < length three_rooms \<and> eligible 40 (three_rooms ! k) c' \<longrightarrow>
           \<not> js_lt (js_sub (Num c') (Num 40)) (js_sub (Num b) (Num 40))) \<and>
       (\<forall>k c'. k < i \<and> eligible 40 (three_rooms ! k) c' \<longrightarrow>
           js_lt (js_sub (Num b) (Num 40)) (js_sub (Num c') (Num 40))) \<and>
       (b \<le> 2 ^ 53 \<longrightarrow>
          js_sub (Num b) (Num 40) = Num (b - 40) \<and>
          (\<forall>k c'. k < length three_rooms \<and> eligible 40 (three_rooms ! k) c' \<and> c' \<le> 2 ^ 53 \<longrightarrow>
              b - 40 \<le> c' - 40 \<and> (k < i \<longrightarrow> b - 40 < c' - 40)))) \<and>
   evaluate (Num 40) three_rooms = BestFit 3 (Num 5) \<and>
   evaluate (Num 1) [rendered_option ''1'' ''9007199254740998'' ''X'',
                     rendered_option ''2'' ''9007199254740996'' ''Y''] =
     BestFit 0 (Num 9007199254740996)"
proof -
  have h1: "(0::int) < 40" by simp
  have h2: "(2::nat) < length three_rooms" by code_simp
  have h3: "eligible 40 (three_rooms ! 2) 50" by code_simp
  have r: "evaluate (Num 40) three_rooms = BestFit 3 (Num 5)" by code_simp
  have t: "evaluate (Num 1) [rendered_option ''1'' ''9007199254740998'' ''X'',
                             rendered_option ''2'' ''9007199254740996'' ''Y''] =
             BestFit 0 (Num 9007199254740996)"
    by code_simp
  from C1_best_fit_least_surplus_earliest [OF h1 h2 h3] h1 h2 h3 r t show ?thesis by blast
qed


text \<open>
  C2, as the code has it. With the required count 0 neither listener disables a
  candidate of non-negative integer capacity. When no candidate has an integer capacity
  of at least 0 (the list may be empty), the outcome is empty: the banner is hidden and
  the selection stays as it was. Otherwise the outcome is a best fit for the earliest
  candidate of least capacity among them, with that capacity as surplus: the listener
  selects it and shows the banner, and the bus listener enables the submit button.
\<close>

theorem C2_zero_requirement:
  assumes "options page = opts" and "bus_options bpage = opts"
  shows
  "(\<forall>j<length opts. opt_value (opts ! j) \<noteq> '''' \<and> nonneg_capacity (opts ! j) \<longrightarrow>
      \<not> disabled (options (room_recommend (Num 0) page) ! j) \<and>
      \<not> disabled (bus_options (bus_recommend (Num 0) bpage) ! j)) \<and>
   ((\<forall>j c. j < length opts \<longrightarrow> \<not> eligible 0 (opts ! j) c) \<longrightarrow>
      evaluate (Num 0) opts = Empty \<and>
      evaluate_bus (Num 0) opts = Empty \<and>
      display (recommendText (room_recommend (Num 0) page)) = ''none'' \<and>
      spaceSelect_value (room_recommend (Num 0) page) = spaceSelect_value page \<and>
      display (suggestionText (bus_recommend (Num 0) bpage)) = ''none'' \<and>
      busSelect_value (bus_recommend (Num 0) bpage) = busSelect_value bpage) \<and>
   ((\<exists>j c. j < length opts \<and> eligible 0 (opts ! j) c) \<longrightarrow>
      (\<exists>i b. i < length opts \<and> eligible 0 (opts ! i) b \<and>
         evaluate (Num 0) opts = BestFit i (Num b) \<and>
         evaluate_bus (Num 0) opts = BestFit i (Num b) \<and>
         (\<forall>k c'. k < length opts \<and> eligible 0 (opts ! k) c' \<longrightarrow> b \<le> c') \<and>
         (\<forall>k c'. k < i \<and> eligible 0 (opts ! k) c' \<longrightarrow> b < c') \<and>
         spaceSelect_value (room_recommend (Num 0) page) = opt_value (opts ! i) \<and>
         display (recommendText (room_recommend (Num 0) page)) = ''block'' \<and>
         innerHTML (recommendText (room_recommend (Num 0) page)) =
           best_fit_html (js_string (data_name (opts ! i))) \<and>
         busSelect_value (bus_recommend (Num 0) bpage) = opt_value (opts ! i) \<and>
         display (suggestionText (bus_recommend (Num 0) bpage)) = ''block'' \<and>
         innerHTML (suggestionText (bus_recommend (Num 0) bpage)) =
           bus_fit_html (js_string (data_name (opts ! i))) (Num 0) \<and>
         \<not> btn_disabled (submitBtn (bus_recommend (Num 0) bpage))))"
proof (intro conjI allI impI)
  fix j
  assume j: "j < length opts"
    and c: "opt_value (opts ! j) \<noteq> '''' \<and> nonneg_capacity (opts ! j)"
  from nonneg_capacity_eligible [of "opts ! j" 0] c
  obtain b where "eligible 0 (opts ! j) b" by auto
  with j assms
  show "\<not> disabled (options (room_recommend (Num 0) page) ! j)"
    and "\<not> disabled (bus_options (bus_recommend (Num 0) bpage) ! j)"
    by (simp_all add: room_recommend_options bus_recommend_options room_scan_nth eligible_def)
next
  assume none: "\<forall>j c. j < length opts \<longrightarrow> \<not> eligible 0 (opts ! j) c"
  from evaluate_none [OF none] have e: "evaluate (Num 0) opts = Empty" by simp
  then show "evaluate (Num 0) opts = Empty" .
  from e have eb: "evaluate_bus (Num 0) opts = Empty"
    by (simp add: evaluate_bus_eq evaluate_Empty_iff js_gt_def)
  then show "evaluate_bus (Num 0) opts = Empty" .
  from room_recommend_Empty [of "Num 0" page] e assms(1)
  show "display (recommendText (room_recommend (Num 0) page)) = ''none''"
    and "spaceSelect_value (room_recommend (Num 0) page) = spaceSelect_value page"
    by simp_all
  from bus_recommend_Empty [of "Num 0" bpage] eb assms(2)
  show "display (suggestionText (bus_recommend (Num 0) bpage)) = ''none''"
    and "busSelect_value (bus_recommend (Num 0) bpage) = busSelect_value bpage"
    by simp_all
next
  assume "\<exists>j c. j < length opts \<and> eligible 0 (opts ! j) c"
  then obtain j c where j: "j < length opts" and el: "eligible 0 (opts ! j) c" by blast
  have zero: "js_sub (Num x) (Num 0) = Num x" if "eligible 0 (opts ! k) x" for k x
    using that by (intro capacity_double [of "opts ! k"]) (simp add: eligible_def)
  have fin: "js_lt (js_sub (Num c) (Num 0)) Infinity" by (rule eligible_surplus_finite [OF el]) simp
  from evaluate_some [OF j el fin] obtain i b where ib:
    "i < length opts" "eligible 0 (opts ! i) b"
    and ev: "evaluate (Num 0) opts = BestFit i (js_sub (Num b) (Num 0))"
    and mn: "\<forall>k c'. k < length opts \<and> eligible 0 (opts ! k) c' \<longrightarrow>
               \<not> js_lt (js_sub (Num c') (Num 0)) (js_sub (Num b) (Num 0))"
    and st: "\<forall>k c'. k < i \<and> eligible 0 (opts ! k) c' \<longrightarrow>
               js_lt (js_sub (Num b) (Num 0)) (js_sub (Num c') (Num 0))"
    by blast
  note zb = zero [OF ib(2)]
  from ev have e: "evaluate (Num 0) opts = BestFit i (Num b)" unfolding zb .
  from evaluate_bus_BestFit [OF e] have eb: "evaluate_bus (Num 0) opts = BestFit i (Num b)" .
  have mn': "\<forall>k c'. k < length opts \<and> eligible 0 (opts ! k) c' \<longrightarrow> b \<le> c'"
  proof (intro allI impI)
    fix k c' assume k: "k < length opts \<and> eligible 0 (opts ! k) c'"
    with mn have m: "\<not> js_lt (js_sub (Num c') (Num 0)) (js_sub (Num b) (Num 0))" by blast
    from k have zc: "js_sub (Num c') (Num 0) = Num c'" by (intro zero [of k]) simp
    from m [unfolded zb zc] show "b \<le> c'" by simp
  qed
  have st': "\<forall>k c'. k < i \<and> eligible 0 (opts ! k) c' \<longrightarrow> b < c'"
  proof (intro allI impI)
    fix k c' assume k: "k < i \<and> eligible 0 (opts ! k) c'"
    with st have l: "js_lt (js_sub (Num b) (Num 0)) (js_sub (Num c') (Num 0))" by blast
    from k have zc: "js_sub (Num c') (Num 0) = Num c'" by (intro zero [of k]) simp
    from l [unfolded zb zc] show "b < c'" by simp
  qed
  have room: "spaceSelect_value (room_recommend (Num 0) page) = opt_value (opts ! i)"
    "display (recommendText (room_recommend (Num 0) page)) = ''block''"
    "innerHTML (recommendText (room_recommend (Num 0) page)) =
       best_fit_html (js_string (data_name (opts ! i)))"
    using room_recommend_BestFit [of "Num 0" page i "Num b"] e assms(1) by simp_all
  have bus: "busSelect_value (bus_recommend (Num 0) bpage) = opt_value (opts ! i)"
    "display (suggestionText (bus_recommend (Num 0) bpage)) = ''block''"
    "innerHTML (suggestionText (bus_recommend (Num 0) bpage)) =
       bus_fit_html (js_string (data_name (opts ! i))) (Num 0)"
    "\<not> btn_disabled (submitBtn (bus_recommend (Num 0) bpage))"
    using bus_recommend_BestFit [of "Num 0" bpage i "Num b"] eb assms(2) by simp_all
  from ib e eb mn' st' room bus
  show "\<exists>i b. i < length opts \<and> eligible 0 (opts ! i) b \<and>
         evaluate (Num 0) opts = BestFit i (Num b) \<and>
         evaluate_bus (Num 0) opts = BestFit i (Num b) \<and>
         (\<forall>k c'. k < length opts \<and> eligible 0 (opts ! k) c' \<longrightarrow> b \<le> c') \<and>
         (\<forall>k c'. k < i \<and> eligible 0 (opts ! k) c' \<longrightarrow> b < c') \<and>
         spaceSelect_value (room_recommend (Num 0) page) = opt_value (opts ! i) \<and>
         display (recommendText (room_recommend (Num 0) page)) = ''block'' \<and>
         innerHTML (recommendText (room_recommend (Num 0) page)) =
           best_fit_html (js_string (data_name (opts ! i))) \<and>
         busSelect_value (bus_recommend (Num 0) bpage) = opt_value (opts ! i) \<and>
         display (suggestionText (bus_recommend (Num 0) bpage)) = ''block'' \<and>
         innerHTML (suggestionText (bus_recommend (Num 0) bpage)) =
           bus_fit_html (js_string (data_name (opts ! i))) (Num 0) \<and>
         \<not> btn_disabled (submitBtn (bus_recommend (Num 0) bpage))"
    by (intro exI [of _ i] exI [of _ b]) simp
qed

theorem C2_witness:
  "options (room_page_of three_rooms) = three_rooms \<and>
   bus_options (bus_page_of three_rooms) = three_rooms \<and>
   (\<exists>j c. j < length three_rooms \<and> eligible 0 (three_rooms ! j) c) \<and>
   (\<exists>i b. i < length three_rooms \<and> eligible 0 (three_rooms ! i) b \<and>
       evaluate (Num 0) three_rooms = BestFit i (Num b) \<and>
       evaluate_bus (Num 0) three_rooms = BestFit i (Num b) \<and>
       (\<forall>k c'. k < length three_rooms \<and> eligible 0 (three_rooms ! k) c' \<longrightarrow> b \<le> c') \<and>
       (\<forall>k c'. k < i \<and> eligible 0 (three_rooms ! k) c' \<longrightarrow> b < c') \<and>
       spaceSelect_value (room_recommend (Num 0) (room_page_of three_rooms)) =
         opt_value (three_rooms ! i) \<and>
       display (recommendText (room_recommend (Num 0) (room_page_of three_rooms))) = ''block'' \<and>
       innerHTML (recommendText (room_recommend (Num 0) (room_page_of three_rooms))) =
         best_fit_html (js_string (data_name (three_rooms ! i))) \<and>
       busSelect_value (bus_recommend (Num 0) (bus_page_of three_rooms)) =
         opt_value (three_rooms ! i) \<and>
       display (suggestionText (bus_recommend (Num 0) (bus_page_of three_rooms))) = ''block'' \<and>
       innerHTML (suggestionText (bus_recommend (Num 0) (bus_page_of three_rooms))) =
         bus_fit_html (js_string (data_name (three_rooms ! i))) (Num 0) \<and>
       \<not> btn_disabled (submitBtn (bus_recommend (Num 0) (bus_page_of three_rooms)))) \<and>
   evaluate (Num 0) [placeholder_option] = Empty \<and>
   evaluate_bus (Num 0) [placeholder_option] = Empty \<and>
   display (recommendText (room_recommend (Num 0) (room_page_of [placeholder_option]))) = ''none'' \<and>
   display (suggestionText (bus_recommend (Num 0) (bus_page_of [placeholder_option]))) = ''none'' \<and>
   \<not> disabled (options (room_recommend (Num 0) (room_page_of three_rooms)) ! 1) \<and>
   \<not> disabled (bus_options (bus_recommend (Num 0) (bus_page_of three_rooms)) ! 1)"
proof -
  have p1: "options (room_page_of three_rooms) = three_rooms"
    and p2: "bus_options (bus_page_of three_rooms) = three_rooms"
    and q1: "options (room_page_of [placeholder_option]) = [placeholder_option]"
    and q2: "bus_options (bus_page_of [placeholder_option]) = [placeholder_option]"
    by (simp_all add: room_page_of_def bus_page_of_def)
  have h1: "(1::nat) < length three_rooms" by code_simp
  have h2: "eligible 0 (three_rooms ! 1) 30" by code_simp
  have h: "\<exists>j c. j < length three_rooms \<and> eligible 0 (three_rooms ! j) c"
    using h1 h2 by blast
  have n: "\<forall>j c. j < length [placeholder_option] \<longrightarrow> \<not> eligible 0 ([placeholder_option] ! j) c"
    by (simp add: eligible_def placeholder_option_def)
  have c: "opt_value (three_rooms ! 1) \<noteq> '''' \<and> nonneg_capacity (three_rooms ! 1)" by code_simp
  from C2_zero_requirement [OF p1 p2] h h1 c C2_zero_requirement [OF q1 q2] n p1 p2
  show ?thesis by blast
qed

text \<open>
  The claim C2 as stated fails on three rooms: the required count 0 gives a best fit for
  room A, which is selected, with the banner shown; the bus listener does the same.
\<close>

theorem C2_counterexample:
  "evaluate (js_or (parseInt ''0'') (Num 0)) (options (room_page_of three_rooms)) = BestFit 1 (Num 30) \<and>
   evaluate (js_or (parseInt ''0'') (Num 0)) (options (room_page_of three_rooms)) \<noteq> Empty \<and>
   spaceSelect_value (countInput_input ''0'' (room_page_of three_rooms)) = ''1'' \<and>
   display (recommendText (countInput_input ''0'' (room_page_of three_rooms))) = ''block'' \<and>
   evaluate_bus (js_or (parseInt ''0'') (Num 0)) (bus_options (bus_page_of three_rooms)) = BestFit 1 (Num 30) \<and>
   busSelect_value (headcountInput_input ''0'' (bus_page_of three_rooms)) = ''1''"
  by code_simp


text \<open>
  C3. For a required count \<open>r > 0\<close> and options (possibly none) of which every candidate
  has a capacity below \<open>r\<close>, the evaluation is no fit, carrying \<open>r\<close>; the listener
  clears the selection and shows the banner with the diagnostic that names \<open>r\<close> the way
  a template literal prints it.
\<close>

theorem C3_no_fit_clears_selection:
  assumes "js_gt r (Num 0)"
    and "\<forall>j<length (options page). opt_value (options page ! j) \<noteq> '''' \<longrightarrow>
           js_lt (capacity_of (options page ! j)) r"
  shows \<open>evaluate r (options page) = NoFit r \<and>
         spaceSelect_value (room_recommend r page) = '''' \<and>
         display (recommendText (room_recommend r page)) = ''block'' \<and>
         innerHTML (recommendText (room_recommend r page)) =
           ''<i class="bi bi-exclamation-circle me-1"></i> No single room can hold '' @
           js_num_string r @ '' students.''\<close>
proof -
  have nofit: "\<not> fits r (options page ! j)" if "j < length (options page)" for j
    using assms(2) that by (auto simp add: fits_def)
  from room_scan_vars [of r "options page"]
  have "bestFitOption (snd (room_scan r (options page))) = None"
  proof (elim disjE exE conjE)
    assume "snd (room_scan r (options page)) =
              \<lparr>bestFitOption = None, smallestDifference = Infinity\<rparr>"
    then show ?thesis by simp
  next
    fix i assume "i < length (options page)" "fits r (options page ! i)"
    with nofit show ?thesis by blast
  qed
  with assms(1) have e: "evaluate r (options page) = NoFit r"
    by (simp add: evaluate_NoFit_iff)
  from room_recommend_NoFit [OF e] e show ?thesis
    by (simp add: no_room_html_def)
qed

theorem C3_witness:
  \<open>js_gt (Num 40) (Num 0) \<and>
   evaluate (Num 40) (options (room_page_of [rendered_option ''1'' ''30'' ''A''])) = NoFit (Num 40) \<and>
   spaceSelect_value (room_recommend (Num 40) (room_page_of [rendered_option ''1'' ''30'' ''A''])) = '''' \<and>
   display (recommendText (room_recommend (Num 40) (room_page_of [rendered_option ''1'' ''30'' ''A'']))) = ''block'' \<and>
   innerHTML (recommendText (room_recommend (Num 40) (room_page_of [rendered_option ''1'' ''30'' ''A'']))) =
     ''<i class="bi bi-exclamation-circle me-1"></i> No single room can hold 40 students.'' \<and>
   js_gt (Num 1000000000000000000000) (Num 0) \<and>
   evaluate (Num 1000000000000000000000) (options (room_page_of [rendered_option ''1'' ''30'' ''A''])) =
     NoFit (Num 1000000000000000000000) \<and>
   innerHTML (recommendText (room_recommend (Num 1000000000000000000000)
       (room_page_of [rendered_option ''1'' ''30'' ''A'']))) =
     ''<i class="bi bi-exclamation-circle me-1"></i> No single room can hold 1e+21 students.''\<close>
proof -
  let ?page = "room_page_of [rendered_option ''1'' ''30'' ''A'']"
  have h1: "js_gt (Num 40) (Num 0)" by code_simp
  have h2: "\<forall>j<length (options ?page). opt_value (options ?page ! j) \<noteq> '''' \<longrightarrow>
              js_lt (capacity_of (options ?page ! j)) (Num 40)"
    by code_simp
  have s: "js_num_string (Num 40) = ''40''" by code_simp
  have k1: "js_gt (Num 1000000000000000000000) (Num 0)" by code_simp
  have k2: "\<forall>j<length (options ?page). opt_value (options ?page ! j) \<noteq> '''' \<longrightarrow>
              js_lt (capacity_of (options ?page ! j)) (Num 1000000000000000000000)"
    by code_simp
  have t: "js_num_string (Num 1000000000000000000000) = ''1e+21''" by code_simp
  from C3_no_fit_clears_selection [OF h1 h2, unfolded s]
       C3_no_fit_clears_selection [OF k1 k2, unfolded t] h1 k1
  show ?thesis by simp
qed


text \<open>
  C4. The listener writes every candidate whose capacity is an integer \<open>c\<close>: it is
  disabled exactly when \<open>c < n\<close>, and then labelled with the cross mark, its name, its
  capacity and "Too Small"; it is enabled exactly when \<open>n \<le> c\<close>, and then labelled
  with its name and capacity. The identifier and the attributes stay as they were.
  The capacity is the number the listener reads from the attribute, printed in the label
  as a template literal prints it.
\<close>

theorem C4_eligibility_partition:
  assumes "i < length (options page)"
    and "opt_value (options page ! i) \<noteq> ''''"
    and "capacity_of (options page ! i) = Num c"
  shows "length (options (room_recommend (Num n) page)) = length (options page) \<and>
         candidate_of (options (room_recommend (Num n) page) ! i) = candidate_of (options page ! i) \<and>
         (disabled (options (room_recommend (Num n) page) ! i) \<longleftrightarrow> c < n) \<and>
         (\<not> disabled (options (room_recommend (Num n) page) ! i) \<longleftrightarrow> n \<le> c) \<and>
         (c < n \<longrightarrow> textContent (options (room_recommend (Num n) page) ! i) =
            [CHR 0xE2, CHR 0x9D, CHR 0x8C] @ '' '' @ js_string (data_name (options page ! i)) @
            '' (Cap: '' @ js_num_string (Num c) @ '') - Too Small'') \<and>
         (n \<le> c \<longrightarrow> textContent (options (room_recommend (Num n) page) ! i) =
            js_string (data_name (options page ! i)) @
            '' (Capacity: '' @ js_num_string (Num c) @ '')'')"
proof -
  let ?opt' = "options (room_recommend (Num n) page) ! i"
  have len: "length (options (room_recommend (Num n) page)) = length (options page)"
    by (simp add: room_recommend_options room_scan_length)
  have cand: "candidate_of ?opt' = candidate_of (options page ! i)"
    using room_scan_candidate [OF assms(1)] by (simp add: room_recommend_options)
  have dis: "disabled ?opt' \<longleftrightarrow> c < n"
    using assms by (simp add: room_recommend_options room_scan_nth)
  have small: "c < n \<Longrightarrow> textContent ?opt' =
      [CHR 0xE2, CHR 0x9D, CHR 0x8C] @ '' '' @ js_string (data_name (options page ! i)) @
      '' (Cap: '' @ js_num_string (Num c) @ '') - Too Small''"
    using assms by (simp add: room_recommend_options room_scan_nth too_small_label_def)
  have fits: "n \<le> c \<Longrightarrow> textContent ?opt' =
      js_string (data_name (options page ! i)) @ '' (Capacity: '' @ js_num_string (Num c) @ '')''"
    using assms by (simp add: room_recommend_options room_scan_nth fits_label_def)
  from len cand dis small fits show ?thesis by (simp add: not_less)
qed

theorem C4_witness:
  "(1::nat) < length (options (room_page_of three_rooms)) \<and>
   opt_value (options (room_page_of three_rooms) ! 1) \<noteq> '''' \<and>
   capacity_of (options (room_page_of three_rooms) ! 1) = Num 30 \<and>
   disabled (options (room_recommend (Num 40) (room_page_of three_rooms)) ! 1) \<and>
   textContent (options (room_recommend (Num 40) (room_page_of three_rooms)) ! 1) =
     [CHR 0xE2, CHR 0x9D, CHR 0x8C] @ '' A (Cap: 30) - Too Small'' \<and>
   capacity_of (options (room_page_of three_rooms) ! 2) = Num 50 \<and>
   \<not> disabled (options (room_recommend (Num 40) (room_page_of three_rooms)) ! 2) \<and>
   textContent (options (room_recommend (Num 40) (room_page_of three_rooms)) ! 2) =
     ''B (Capacity: 50)'' \<and>
   capacity_of (options (room_page_of large_rooms) ! 0) = Num 1000000000000000000000 \<and>
   \<not> disabled (options (room_recommend (Num 40) (room_page_of large_rooms)) ! 0) \<and>
   textContent (options (room_recommend (Num 40) (room_page_of large_rooms)) ! 0) =
     ''Arena (Capacity: 1e+21)'' \<and>
   capacity_of (options (room_page_of large_rooms) ! 1) = Num 9007199254740996 \<and>
   \<not> disabled (options (room_recommend (Num 9007199254740996) (room_page_of large_rooms)) ! 1) \<and>
   textContent (options (room_recommend (Num 9007199254740996) (room_page_of large_rooms)) ! 1) =
     ''Dome (Capacity: 9007199254740996)''"
proof -
  have h1: "(1::nat) < length (options (room_page_of three_rooms))" by code_simp
  have h2: "opt_value (options (room_page_of three_rooms) ! 1) \<noteq> ''''" by code_simp
  have h3: "capacity_of (options (room_page_of three_rooms) ! 1) = Num 30" by code_simp
  have n: "js_string (data_name (options (room_page_of three_rooms) ! 1)) = ''A''" by code_simp
  have s: "js_num_string (Num 30) = ''30''" by code_simp
  have k1: "(2::nat) < length (options (room_page_of three_rooms))" by code_simp
  have k2: "opt_value (options (room_page_of three_rooms) ! 2) \<noteq> ''''" by code_simp
  have k3: "capacity_of (options (room_page_of three_rooms) ! 2) = Num 50" by code_simp
  have m: "js_string (data_name (options (room_page_of three_rooms) ! 2)) = ''B''" by code_simp
  have t: "js_num_string (Num 50) = ''50''" by code_simp
  have a1: "(0::nat) < length (options (room_page_of large_rooms))" by code_simp
  have a2: "opt_value (options (room_page_of large_rooms) ! 0) \<noteq> ''''" by code_simp
  have a3: "capacity_of (options (room_page_of large_rooms) ! 0) = Num 1000000000000000000000"
    by code_simp
  have an: "js_string (data_name (options (room_page_of large_rooms) ! 0)) = ''Arena''"
    by code_simp
  have as: "js_num_string (Num 1000000000000000000000) = ''1e+21''" by code_simp
  have d1: "(1::nat) < length (options (room_page_of large_rooms))" by code_simp
  have d2: "opt_value (options (room_page_of large_rooms) ! 1) \<noteq> ''''" by code_simp
  have d3: "capacity_of (options (room_page_of large_rooms) ! 1) = Num 9007199254740996"
    by code_simp
  have dn: "js_string (data_name (options (room_page_of large_rooms) ! 1)) = ''Dome''"
    by code_simp
  have ds: "js_num_string (Num 9007199254740996) = ''9007199254740996''" by code_simp
  from C4_eligibility_partition [OF h1 h2 h3, of 40, unfolded n s]
       C4_eligibility_partition [OF k1 k2 k3, of 40, unfolded m t] h1 h2 h3 k3
  have small: "disabled (options (room_recommend (Num 40) (room_page_of three_rooms)) ! 1) \<and>
      textContent (options (room_recommend (Num 40) (room_page_of three_rooms)) ! 1) =
        [CHR 0xE2, CHR 0x9D, CHR 0x8C] @ '' A (Cap: 30) - Too Small'' \<and>
      \<not> disabled (options (room_recommend (Num 40) (room_page_of three_rooms)) ! 2) \<and>
      textContent (options (room_recommend (Num 40) (room_page_of three_rooms)) ! 2) =
        ''B (Capacity: 50)''"
    by simp
  from C4_eligibility_partition [OF a1 a2 a3, of 40, unfolded an as]
  have arena: "\<not> disabled (options (room_recommend (Num 40) (room_page_of large_rooms)) ! 0) \<and>
      textContent (options (room_recommend (Num 40) (room_page_of large_rooms)) ! 0) =
        ''Arena (Capacity: 1e+21)''"
    by simp
  from C4_eligibility_partition [OF d1 d2 d3, of 9007199254740996, unfolded dn ds]
  have dome:
    "\<not> disabled (options (room_recommend (Num 9007199254740996) (room_page_of large_rooms)) ! 1) \<and>
      textContent (options (room_recommend (Num 9007199254740996) (room_page_of large_rooms)) ! 1) =
        ''Dome (Capacity: 9007199254740996)''"
    by simp
  from small arena dome h1 h2 h3 k3 a3 d3 show ?thesis by simp
qed


text \<open>
  C5, as the code has it. After a no fit the submit button is disabled and relabelled;
  after a best fit it is enabled and relabelled. When the outcome is neither, the
  listener leaves the button as it was. With at least one candidate, candidates as in the
  data model (capacities that are non-negative integers) up to \<open>2\<^sup>5\<^sup>2\<close> and a required
  count of at least \<open>- 2\<^sup>5\<^sup>2\<close>, the outcome is never empty, and a required count of 0
  or less leaves the button enabled.
\<close>

theorem C5_submission_gate:
  "(evaluate_bus c (bus_options page) = NoFit x \<longrightarrow>
      btn_disabled (submitBtn (bus_recommend c page)) \<and>
      btn_textContent (submitBtn (bus_recommend c page)) = ''Cannot Book: Too many passengers'') \<and>
   (evaluate_bus c (bus_options page) = BestFit i s \<longrightarrow>
      \<not> btn_disabled (submitBtn (bus_recommend c page)) \<and>
      btn_textContent (submitBtn (bus_recommend c page)) = ''Submit Request'') \<and>
   (evaluate_bus c (bus_options page) = Empty \<longrightarrow>
      submitBtn (bus_recommend c page) = submitBtn page) \<and>
   (k < length (bus_options page) \<and> opt_value (bus_options page ! k) \<noteq> '''' \<and>
    (\<forall>j<length (bus_options page). opt_value (bus_options page ! j) \<noteq> '''' \<longrightarrow>
        safe_capacity (bus_options page ! j)) \<and> - (2 ^ 52) \<le> n \<longrightarrow>
      evaluate_bus (Num n) (bus_options page) \<noteq> Empty \<and>
      (n \<le> 0 \<longrightarrow> \<not> btn_disabled (submitBtn (bus_recommend (Num n) page))))"
proof (intro conjI impI)
  assume "evaluate_bus c (bus_options page) = NoFit x"
  from bus_recommend_NoFit [OF this]
  show "btn_disabled (submitBtn (bus_recommend c page))"
    and "btn_textContent (submitBtn (bus_recommend c page)) = ''Cannot Book: Too many passengers''"
    by simp_all
next
  assume "evaluate_bus c (bus_options page) = BestFit i s"
  from bus_recommend_BestFit [OF this]
  show "\<not> btn_disabled (submitBtn (bus_recommend c page))"
    and "btn_textContent (submitBtn (bus_recommend c page)) = ''Submit Request''"
    by simp_all
next
  assume "evaluate_bus c (bus_options page) = Empty"
  from bus_recommend_Empty [OF this]
  show "submitBtn (bus_recommend c page) = submitBtn page" by simp
next
  assume "k < length (bus_options page) \<and> opt_value (bus_options page ! k) \<noteq> '''' \<and>
    (\<forall>j<length (bus_options page). opt_value (bus_options page ! j) \<noteq> '''' \<longrightarrow>
        safe_capacity (bus_options page ! j)) \<and> - (2 ^ 52) \<le> n"
  then have ne: "evaluate_bus (Num n) (bus_options page) \<noteq> Empty"
    using evaluate_bus_not_Empty [of k "bus_options page" n] by blast
  then show "evaluate_bus (Num n) (bus_options page) \<noteq> Empty" .
  assume "n \<le> 0"
  then have "\<not> js_gt (Num n) (Num 0)" by (simp add: js_gt_def)
  with ne obtain i s where "evaluate_bus (Num n) (bus_options page) = BestFit i s"
    by (cases "evaluate_bus (Num n) (bus_options page)") (auto simp add: evaluate_bus_eq split: if_splits option.splits)
  from bus_recommend_BestFit [OF this]
  show "\<not> btn_disabled (submitBtn (bus_recommend (Num n) page))" by simp
qed

theorem C5_witness:
  "evaluate_bus (Num 60) (bus_options (bus_page_of three_rooms)) = NoFit (Num 60) \<and>
   btn_disabled (submitBtn (bus_recommend (Num 60) (bus_page_of three_rooms))) \<and>
   btn_textContent (submitBtn (bus_recommend (Num 60) (bus_page_of three_rooms))) =
     ''Cannot Book: Too many passengers'' \<and>
   evaluate_bus (Num 40) (bus_options (bus_recommend (Num 60) (bus_page_of three_rooms))) = BestFit 3 (Num 5) \<and>
   \<not> btn_disabled (submitBtn (bus_recommend (Num 40) (bus_recommend (Num 60) (bus_page_of three_rooms)))) \<and>
   btn_textContent (submitBtn (bus_recommend (Num 40) (bus_recommend (Num 60) (bus_page_of three_rooms)))) =
     ''Submit Request'' \<and>
   evaluate_bus (Num 0) (bus_options (bus_page_of [placeholder_option])) = Empty \<and>
   submitBtn (bus_recommend (Num 0) (bus_page_of [placeholder_option])) =
     submitBtn (bus_page_of [placeholder_option]) \<and>
   evaluate_bus (Num 0) (bus_options (bus_page_of three_rooms)) \<noteq> Empty \<and>
   \<not> btn_disabled (submitBtn (bus_recommend (Num 0) (bus_page_of three_rooms)))"
proof -
  let ?p = "bus_page_of three_rooms"
  let ?q = "bus_recommend (Num 60) (bus_page_of three_rooms)"
  let ?e = "bus_page_of [placeholder_option]"
  have h1: "evaluate_bus (Num 60) (bus_options ?p) = NoFit (Num 60)" by code_simp
  have h2: "evaluate_bus (Num 40) (bus_options ?q) = BestFit 3 (Num 5)" by code_simp
  have h3: "evaluate_bus (Num 0) (bus_options ?e) = Empty" by code_simp
  have h4: "1 < length (bus_options ?p) \<and> opt_value (bus_options ?p ! 1) \<noteq> '''' \<and>
    (\<forall>j<length (bus_options ?p). opt_value (bus_options ?p ! j) \<noteq> '''' \<longrightarrow>
        safe_capacity (bus_options ?p ! j)) \<and> - (2 ^ 52) \<le> (0::int)" by code_simp
  from C5_submission_gate [of "Num 60" ?p "Num 60" 3 "Num 5" 1 0]
       C5_submission_gate [of "Num 40" ?q "Num 60" 3 "Num 5" 1 0]
       C5_submission_gate [of "Num 0" ?e "Num 60" 3 "Num 5" 1 0]
       h1 h2 h3 h4
  show ?thesis by simp
qed

text \<open>
  The claim C5 as stated fails on a page that lists no bus: the input 5 gives no fit and
  disables the button; the empty input that follows gives the empty outcome, and the
  button is still disabled.
\<close>

theorem C5_counterexample:
  "evaluate_bus (js_or (parseInt ''5'') (Num 0)) (bus_options (bus_page_of [placeholder_option])) = NoFit (Num 5) \<and>
   btn_disabled (submitBtn (headcountInput_input ''5'' (bus_page_of [placeholder_option]))) \<and>
   evaluate_bus (js_or (parseInt '''') (Num 0))
     (bus_options (headcountInput_input ''5'' (bus_page_of [placeholder_option]))) = Empty \<and>
   btn_disabled (submitBtn (headcountInput_input ''''
     (headcountInput_input ''5'' (bus_page_of [placeholder_option])))) \<and>
   btn_textContent (submitBtn (headcountInput_input ''''
     (headcountInput_input ''5'' (bus_page_of [placeholder_option])))) = ''Cannot Book: Too many passengers''"
  by code_simp


text \<open>
  C6, as the code has it. An input that does not parse (\<open>parseInt\<close> gives \<open>NaN\<close>, as for
  the empty input) is the required count 0: both listeners do exactly what they do for
  the required count 0, and the outcome is that of 0.
\<close>

theorem C6_unparsable_input_counts_as_zero:
  assumes "parseInt v = NaN"
  shows "js_or (parseInt v) (Num 0) = Num 0 \<and>
         countInput_input v page = room_recommend (Num 0) page \<and>
         headcountInput_input v bpage = bus_recommend (Num 0) bpage \<and>
         evaluate (js_or (parseInt v) (Num 0)) opts = evaluate (Num 0) opts \<and>
         evaluate_bus (js_or (parseInt v) (Num 0)) opts = evaluate_bus (Num 0) opts"
  using assms by (simp add: js_or_def countInput_input_def headcountInput_input_def)

theorem C6_witness:
  "parseInt ''abc'' = NaN \<and> parseInt '''' = NaN \<and>
   js_or (parseInt ''abc'') (Num 0) = Num 0 \<and>
   countInput_input ''abc'' (room_page_of three_rooms) = room_recommend (Num 0) (room_page_of three_rooms) \<and>
   headcountInput_input ''abc'' (bus_page_of three_rooms) = bus_recommend (Num 0) (bus_page_of three_rooms) \<and>
   countInput_input '''' (room_page_of three_rooms) = room_recommend (Num 0) (room_page_of three_rooms)"
proof -
  have h1: "parseInt ''abc'' = NaN" by code_simp
  have h2: "parseInt '''' = NaN" by code_simp
  from C6_unparsable_input_counts_as_zero [OF h1, of "room_page_of three_rooms" "bus_page_of three_rooms"]
       C6_unparsable_input_counts_as_zero [OF h2, of "room_page_of three_rooms" "bus_page_of three_rooms"]
       h1 h2
  show ?thesis by simp
qed

text \<open>
  The claim C6 as stated fails on three rooms: the input \<open>abc\<close> does not parse, yet the
  evaluation is not the empty case: room A is selected and the banner is shown.
\<close>

theorem C6_counterexample:
  "parseInt ''abc'' = NaN \<and>
   evaluate (js_or (parseInt ''abc'') (Num 0)) (options (room_page_of three_rooms)) = BestFit 1 (Num 30) \<and>
   evaluate (js_or (parseInt ''abc'') (Num 0)) (options (room_page_of three_rooms)) \<noteq> Empty \<and>
   spaceSelect_value (countInput_input ''abc'' (room_page_of three_rooms)) = ''1'' \<and>
   display (recommendText (countInput_input ''abc'' (room_page_of three_rooms))) = ''block''"
  by code_simp


text \<open>
  C7. The outcome of an evaluation is a function of the required count and of what the
  server rendered of the candidates (identifier, capacity, name) alone: two lists of
  options that agree on these give the same outcome, whatever their \<open>disabled\<close> flags and
  labels are, and the options a listener run leaves behind give the same outcome again.
\<close>

theorem C7_outcome_depends_on_candidates_only:
  assumes "map candidate_of opts1 = map candidate_of opts2"
  shows "evaluate r opts1 = evaluate r opts2 \<and>
         evaluate r (options (room_recommend r' (page\<lparr>options := opts1\<rparr>))) = evaluate r opts1"
proof -
  have "snd (room_scan r opts1) = snd (room_scan r opts2)"
    by (rule room_scan_cong [OF assms])
  moreover have "snd (room_scan r (fst (room_scan r' opts1))) = snd (room_scan r opts1)"
    by (rule room_scan_cong) (rule room_scan_candidates)
  ultimately show ?thesis
    by (simp add: evaluate_def room_recommend_options)
qed

theorem C7_witness:
  "map candidate_of three_rooms =
     map candidate_of (options (countInput_input ''60'' (room_page_of three_rooms))) \<and>
   three_rooms \<noteq> options (countInput_input ''60'' (room_page_of three_rooms)) \<and>
   evaluate (Num 40) three_rooms =
     evaluate (Num 40) (options (countInput_input ''60'' (room_page_of three_rooms)))"
proof -
  have h: "map candidate_of three_rooms =
     map candidate_of (options (countInput_input ''60'' (room_page_of three_rooms)))"
    by code_simp
  have d: "three_rooms \<noteq> options (countInput_input ''60'' (room_page_of three_rooms))"
    by code_simp
  from C7_outcome_depends_on_candidates_only [OF h, of "Num 40"] h d show ?thesis by simp
qed





text \<open>
  C9. A candidate whose capacity attribute is missing or does not parse is, for every
  required count, left enabled and labelled as fitting, with capacity \<open>NaN\<close>, by both
  listeners; it is never the option a best fit chooses.
\<close>

theorem C9_unparsable_capacity:
  assumes "i < length opts"
    and "opt_value (opts ! i) \<noteq> ''''"
    and "capacity_of (opts ! i) = NaN"
  shows "\<not> disabled (fst (room_scan r opts) ! i) \<and>
         textContent (fst (room_scan r opts) ! i) =
           js_string (data_name (opts ! i)) @ '' (Capacity: NaN)'' \<and>
         \<not> disabled (fst (bus_scan r opts) ! i) \<and>
         textContent (fst (bus_scan r opts) ! i) =
           js_string (data_name (opts ! i)) @ '' (Capacity: NaN)'' \<and>
         (\<forall>s. evaluate r opts \<noteq> BestFit i s) \<and>
         (\<forall>s. evaluate_bus r opts \<noteq> BestFit i s)"
proof -
  have never: "evaluate r opts \<noteq> BestFit i s" for s
  proof
    assume "evaluate r opts = BestFit i s"
    then have "bestFitOption (snd (room_scan r opts)) = Some i"
      by (simp add: evaluate_BestFit_iff)
    from room_scan_best [OF this] assms(3) show False by simp
  qed
  then have "evaluate_bus r opts \<noteq> BestFit i s" for s
    using evaluate_bus_BestFit_room [of r opts i s] by blast
  with never assms show ?thesis
    by (simp add: bus_scan_fst room_scan_nth fits_label_def)
qed

theorem C9_witness:
  "(1::nat) < length [placeholder_option, rendered_option ''7'' ''large'' ''Hall'', rendered_option ''8'' ''20'' ''Lab''] \<and>
   capacity_of ([placeholder_option, rendered_option ''7'' ''large'' ''Hall'', rendered_option ''8'' ''20'' ''Lab''] ! 1) = NaN \<and>
   \<not> disabled (fst (room_scan (Num 500) [placeholder_option, rendered_option ''7'' ''large'' ''Hall'', rendered_option ''8'' ''20'' ''Lab'']) ! 1) \<and>
   textContent (fst (room_scan (Num 500) [placeholder_option, rendered_option ''7'' ''large'' ''Hall'', rendered_option ''8'' ''20'' ''Lab'']) ! 1) =
     ''Hall (Capacity: NaN)''"
proof -
  let ?opts = "[placeholder_option, rendered_option ''7'' ''large'' ''Hall'', rendered_option ''8'' ''20'' ''Lab'']"
  have h1: "(1::nat) < length ?opts" by simp
  have h2: "opt_value (?opts ! 1) \<noteq> ''''" by code_simp
  have h3: "capacity_of (?opts ! 1) = NaN" by code_simp
  have n: "js_string (data_name (?opts ! 1)) = ''Hall''" by code_simp
  from C9_unparsable_capacity [OF h1 h2 h3, of "Num 500", unfolded n] h1 h3
  show ?thesis by simp
qed


text \<open>
  C10. On the room page a best fit leaves the classes of the banner as they were, and
  only a no fit assigns them, to the danger styling. So in any sequence of input events
  in which some input gives no fit and the last input gives a best fit, the banner of
  that best fit is shown with the danger styling. The bus listener assigns the classes
  anew in every evaluation, whatever they were.
\<close>

theorem C10_banner_class_not_reset:
  "(evaluate r (options page) = BestFit i s \<longrightarrow>
      className (recommendText (room_recommend r page)) = className (recommendText page)) \<and>
   (evaluate r (options page) = NoFit x \<longrightarrow>
      className (recommendText (room_recommend r page)) =
        [''form-text'', ''text-danger'', ''fw-bold'', ''mt-2'']) \<and>
   (evaluate (js_or (parseInt v1) (Num 0)) (options page) = NoFit x \<and>
    evaluate (js_or (parseInt v2) (Num 0)) (options page) = BestFit i s \<longrightarrow>
      recommendText (countInput_events (before @ [v1] @ between @ [v2]) page) =
        \<lparr>display = ''block'',
         className = [''form-text'', ''text-danger'', ''fw-bold'', ''mt-2''],
         innerHTML = best_fit_html (js_string (data_name (options page ! i)))\<rparr>) \<and>
   className (suggestionText (bus_recommend c bpage)) =
     (case evaluate_bus c (bus_options bpage) of
        NoFit x \<Rightarrow> [''form-text'', ''fw-bold'', ''mt-2'', ''text-danger'']
      | BestFit i s \<Rightarrow> [''form-text'', ''fw-bold'', ''mt-2'', ''text-success'']
      | Empty \<Rightarrow> [''form-text'', ''fw-bold'', ''mt-2''])"
proof (intro conjI impI)
  assume "evaluate r (options page) = BestFit i s"
  then show "className (recommendText (room_recommend r page)) = className (recommendText page)"
    by (simp add: room_recommend_className)
next
  assume "evaluate r (options page) = NoFit x"
  then show "className (recommendText (room_recommend r page)) =
        [''form-text'', ''text-danger'', ''fw-bold'', ''mt-2'']"
    by (simp add: room_recommend_className)
next
  assume a: "evaluate (js_or (parseInt v1) (Num 0)) (options page) = NoFit x \<and>
    evaluate (js_or (parseInt v2) (Num 0)) (options page) = BestFit i s"
  let ?danger = "[''form-text'', ''text-danger'', ''fw-bold'', ''mt-2'']"
  let ?p0 = "countInput_events before page"
  let ?p1 = "countInput_input v1 ?p0"
  let ?p2 = "countInput_events between ?p1"
  have c0: "map candidate_of (options ?p0) = map candidate_of (options page)"
    by (rule countInput_events_candidates)
  have c2: "map candidate_of (options ?p2) = map candidate_of (options page)"
    by (simp add: countInput_events_candidates countInput_input_candidates)
  from a evaluate_cong [OF c0]
  have "evaluate (js_or (parseInt v1) (Num 0)) (options ?p0) = NoFit x" by simp
  then have "className (recommendText ?p1) = ?danger"
    by (simp add: countInput_input_def room_recommend_className)
  from danger_stays [OF this] have d2: "className (recommendText ?p2) = ?danger" .
  from a evaluate_cong [OF c2]
  have e2: "evaluate (js_or (parseInt v2) (Num 0)) (options ?p2) = BestFit i s" by simp
  have i: "i < length (options page)"
    using a room_scan_best [of "js_or (parseInt v2) (Num 0)" "options page" i]
    by (simp add: evaluate_BestFit_iff)
  have len: "length (options ?p2) = length (options page)"
    by (rule map_eq_imp_length_eq [OF c2])
  have "map candidate_of (options ?p2) ! i = map candidate_of (options page) ! i"
    by (simp only: c2)
  with i len have "candidate_of (options ?p2 ! i) = candidate_of (options page ! i)"
    by simp
  then have n: "data_name (options ?p2 ! i) = data_name (options page ! i)"
    by (simp add: candidate_of_def)
  have "recommendText (countInput_input v2 ?p2) =
      \<lparr>display = ''block'', className = ?danger,
       innerHTML = best_fit_html (js_string (data_name (options page ! i)))\<rparr>"
    using room_recommend_BestFit [OF e2] d2 n by (simp add: countInput_input_def)
  then show "recommendText (countInput_events (before @ [v1] @ between @ [v2]) page) =
      \<lparr>display = ''block'', className = ?danger,
       innerHTML = best_fit_html (js_string (data_name (options page ! i)))\<rparr>"
    by (simp add: countInput_events_append)
next
  show "className (suggestionText (bus_recommend c bpage)) =
     (case evaluate_bus c (bus_options bpage) of
        NoFit x \<Rightarrow> [''form-text'', ''fw-bold'', ''mt-2'', ''text-danger'']
      | BestFit i s \<Rightarrow> [''form-text'', ''fw-bold'', ''mt-2'', ''text-success'']
      | Empty \<Rightarrow> [''form-text'', ''fw-bold'', ''mt-2''])"
    by (rule bus_recommend_className)
qed

theorem C10_witness:
  \<open>evaluate (js_or (parseInt ''60'') (Num 0)) (options (room_page_of three_rooms)) = NoFit (Num 60) \<and>
   evaluate (js_or (parseInt ''40'') (Num 0)) (options (room_page_of three_rooms)) = BestFit 3 (Num 5) \<and>
   className (recommendText (room_page_of three_rooms)) = [''form-text'', ''text-success''] \<and>
   recommendText (countInput_events ([] @ [''60''] @ [] @ [''40'']) (room_page_of three_rooms)) =
     \<lparr>display = ''block'',
      className = [''form-text'', ''text-danger'', ''fw-bold'', ''mt-2''],
      innerHTML = ''<i class="bi bi-stars me-1"></i> Auto-selected <strong>C</strong> as the best fit!''\<rparr> \<and>
   className (suggestionText (bus_recommend (Num 40) (bus_recommend (Num 60) (bus_page_of three_rooms)))) =
     [''form-text'', ''fw-bold'', ''mt-2'', ''text-success''] \<and>
   className (recommendText (room_recommend (Num 40) (room_page_of three_rooms))) =
     [''form-text'', ''text-success''] \<and>
   className (recommendText (room_recommend (Num 60) (room_page_of three_rooms))) =
     [''form-text'', ''text-danger'', ''fw-bold'', ''mt-2'']\<close>
proof -
  let ?p = "room_page_of three_rooms"
  let ?q = "bus_recommend (Num 60) (bus_page_of three_rooms)"
  have h1: "evaluate (js_or (parseInt ''60'') (Num 0)) (options ?p) = NoFit (Num 60)" by code_simp
  have h2: "evaluate (js_or (parseInt ''40'') (Num 0)) (options ?p) = BestFit 3 (Num 5)" by code_simp
  have h3: "className (recommendText ?p) = [''form-text'', ''text-success'']" by code_simp
  have n: "best_fit_html (js_string (data_name (options ?p ! 3))) =
     ''<i class=\"bi bi-stars me-1\"></i> Auto-selected <strong>C</strong> as the best fit!''"
    by code_simp
  have b: "evaluate_bus (Num 40) (bus_options ?q) = BestFit 3 (Num 5)" by code_simp
  have g1: "evaluate (Num 40) (options ?p) = BestFit 3 (Num 5)" by code_simp
  have g2: "evaluate (Num 60) (options ?p) = NoFit (Num 60)" by code_simp
  from C10_banner_class_not_reset [of "Num 40" ?p 3 "Num 5" "Num 60" "''60''" "''40''" "[]" "[]" "Num 40" ?q]
       C10_banner_class_not_reset [of "Num 60" ?p 3 "Num 5" "Num 60" "''60''" "''40''" "[]" "[]" "Num 40" ?q]
    h1 h2 h3 n b g1 g2
  show ?thesis by simp
qed


end
